theory Spec2Isabelle
  imports Main
begin

section \<open>Values and class identities\<close>

text \<open>
  The registration code of \<^verbatim>\<open>design-system.ts\<close> runs on untyped JavaScript values: the
  result of the disambiguation callback is compared with two sentinels by \<^verbatim>\<open>===\<close> and is
  otherwise stored as the element name (\<^verbatim>\<open>elementName = result as string\<close>, a cast the
  runtime never checks). The values that can reach that code are modelled by \<open>jsval\<close>.
\<close>

datatype jsval = JSUndefined | JSNull | JSString string | JSSymbol nat

text \<open>An exception raised by a callback: a \<^verbatim>\<open>TypeError\<close> of the runtime, or a thrown message.\<close>

datatype exn = TypeError | Thrown string

text \<open>
  A \<^verbatim>\<open>Constructable\<close> is a class object, compared by identity. \<open>FoundationElement\<close> is the
  imported base class, \<open>Class c\<close> a class declared by a package, and \<open>Extends k t\<close> the
  anonymous class made by the \<open>k\<close>-th evaluation of \<^verbatim>\<open>class extends type {}\<close>, with
  superclass \<open>t\<close>.
\<close>

datatype constructable = FoundationElement | Class string | Extends nat constructable

text \<open>
  \<^verbatim>\<open>ElementDisambiguation = Object.freeze({ definitionCallbackOnly: null,
  ignoreDuplicate: Symbol() })\<close>: the symbol made when the module is loaded is symbol 0.
\<close>

definition definitionCallbackOnly :: jsval where
  "definitionCallbackOnly = JSNull"

definition ignoreDuplicate :: jsval where
  "ignoreDuplicate = JSSymbol 0"

text \<open>
  \<^verbatim>\<open>ElementDisambiguationCallback\<close>: (nameAttempt, typeAttempt, existingType) to a result;
  \<open>Inl\<close> is an exception the callback throws.
\<close>

type_synonym elementDisambiguationCallback =
  "jsval \<Rightarrow> constructable \<Rightarrow> constructable \<Rightarrow> exn + jsval"

section \<open>The global registries\<close>

text \<open>
  \<^verbatim>\<open>const elementTypesByTag = new Map<string, Constructable>();\<close>
  \<^verbatim>\<open>const elementTagsByType = new Map<Constructable, string>();\<close>
  Both live for the whole process. \<open>classesCreated\<close> counts the anonymous classes made
  so far, which gives each new one its identity.
\<close>

record registries =
  elementTypesByTag :: "jsval \<rightharpoonup> constructable"
  elementTagsByType :: "constructable \<rightharpoonup> jsval"
  classesCreated :: nat

definition initialRegistries :: registries where
  "initialRegistries =
     \<lparr>elementTypesByTag = Map.empty, elementTagsByType = Map.empty, classesCreated = 0\<rparr>"

text \<open>
  \<^verbatim>\<open>tagFor(type) { return elementTagsByType.get(type)!; }\<close>: \<^verbatim>\<open>Map.get\<close> gives
  \<^verbatim>\<open>undefined\<close> for a key that is not in the map, and \<^verbatim>\<open>!\<close> is erased by the compiler.
\<close>

definition tagFor :: "registries \<Rightarrow> constructable \<Rightarrow> jsval" where
  "tagFor g type = (case elementTagsByType g type of None \<Rightarrow> JSUndefined | Some tag \<Rightarrow> tag)"

text \<open>A class object that exists once \<open>n\<close> anonymous classes have been made.\<close>

fun known :: "nat \<Rightarrow> constructable \<Rightarrow> bool" where
  "known n FoundationElement = True"
| "known n (Class c) = True"
| "known n (Extends k t) = (k < n \<and> known n t)"

section \<open>Definition entries\<close>

type_synonym node = nat

text \<open>
  A DI container is the root container or the container scoped to a DOM node; a node has
  at most one (\<^verbatim>\<open>DI.getOrCreateDOMContainer(node)\<close>), so the owner identifies it.
\<close>

datatype container = RootContainer | NodeContainer node

type_synonym contextualElementDefinition = string
type_synonym componentPresentation = string

datatype shadowRootMode = ShadowOpen | ShadowClosed

text \<open>\<^verbatim>\<open>new FASTElementDefinition(this.type, { ...definition, name: this.name })\<close>\<close>

record fastElementDefinition =
  def_type :: constructable
  def_name :: jsval
  def_options :: contextualElementDefinition

text \<open>
  What a configuration callback sees of its entry (\<^verbatim>\<open>ElementDefinitionContext\<close>), and
  the two operations it may invoke on it. A callback is the list of operations it invokes,
  in order, as a function of what it sees.
\<close>

record elementDefinitionContext =
  ctx_name :: jsval
  ctx_type :: constructable
  ctx_container :: container
  ctx_willDefine :: bool
  ctx_shadowRootMode :: "shadowRootMode option"
  ctx_tagFor :: "constructable \<Rightarrow> jsval"

datatype contextCall =
  DefineElement contextualElementDefinition
| DefinePresentation componentPresentation

type_synonym elementDefinitionCallback = "elementDefinitionContext \<Rightarrow> contextCall list"

text \<open>\<^verbatim>\<open>class ElementDefinitionEntry\<close>; \<open>entry_definition\<close> starts as \<^verbatim>\<open>null\<close>.\<close>

record elementDefinitionEntry =
  entry_container :: container
  entry_name :: jsval
  entry_type :: constructable
  entry_shadowRootMode :: "shadowRootMode option"
  entry_callback :: elementDefinitionCallback
  willDefine :: bool
  entry_definition :: "fastElementDefinition option"

definition newElementDefinitionEntry ::
  "container \<Rightarrow> jsval \<Rightarrow> constructable \<Rightarrow> shadowRootMode option \<Rightarrow>
   elementDefinitionCallback \<Rightarrow> bool \<Rightarrow> elementDefinitionEntry" where
  "newElementDefinitionEntry c n t m cb w =
     \<lparr>entry_container = c, entry_name = n, entry_type = t, entry_shadowRootMode = m,
      entry_callback = cb, willDefine = w, entry_definition = None\<rparr>"

section \<open>tryDefineElement\<close>

text \<open>\<^verbatim>\<open>ElementDefinitionParams\<close>; \<open>baseClass\<close> is optional.\<close>

record elementDefinitionParams =
  name :: string
  type :: constructable
  callback :: elementDefinitionCallback
  baseClass :: "constructable option"

text \<open>The two ways \<^verbatim>\<open>tryDefineElement\<close> is called: three arguments, or one object.\<close>

datatype tryDefineElementArgs =
  Positional string constructable elementDefinitionCallback
| Params elementDefinitionParams

fun extractTryDefineElementParams :: "tryDefineElementArgs \<Rightarrow> elementDefinitionParams" where
  "extractTryDefineElementParams (Positional params elementDefinitionType elementDefinitionCallback) =
     \<lparr>name = params, type = elementDefinitionType, callback = elementDefinitionCallback,
      baseClass = None\<rparr>"
| "extractTryDefineElementParams (Params params) = params"

text \<open>
  The loop \<^verbatim>\<open>while (typeFoundByName) { ... }\<close> over the variables \<open>elementName\<close>,
  \<open>typeFoundByName\<close> and \<open>needsDefine\<close>. It may run forever (a callback that keeps
  answering with a name that is taken): \<open>None\<close> is the run that never leaves the loop.
  Otherwise the result is \<open>Inl e\<close> when the callback throws \<open>e\<close>, \<open>Inr None\<close> for the
  \<^verbatim>\<open>return\<close> of the \<^verbatim>\<open>ignoreDuplicate\<close> case, and \<open>Inr (Some (elementName, needsDefine))\<close>
  when the loop is left with these values.
\<close>

partial_function (option) disambiguationLoop ::
  "elementDisambiguationCallback \<Rightarrow> (jsval \<rightharpoonup> constructable) \<Rightarrow> constructable \<Rightarrow>
   jsval \<Rightarrow> constructable option \<Rightarrow> bool \<Rightarrow> (exn + (jsval \<times> bool) option) option" where
  "disambiguationLoop disambiguate typesByTag type0 elementName typeFoundByName needsDefine =
     (case typeFoundByName of
        None \<Rightarrow> Some (Inr (Some (elementName, needsDefine)))
      | Some existingType \<Rightarrow>
          (case disambiguate elementName type0 existingType of
             Inl e \<Rightarrow> Some (Inl e)
           | Inr result \<Rightarrow>
               if result = ignoreDuplicate then Some (Inr None)
               else if result = definitionCallbackOnly then
                 disambiguationLoop disambiguate typesByTag type0 elementName None False
               else
                 disambiguationLoop disambiguate typesByTag type0 result (typesByTag result)
                   needsDefine))"

text \<open>
  The block under \<^verbatim>\<open>if (needsDefine)\<close>: the class that is filed (a new anonymous subclass
  when \<^verbatim>\<open>elementTagsByType.has(type) || type === FoundationElement\<close>) and the registries
  after the three writes. Every \<open>constructable\<close> here is a class object, which
  \<^verbatim>\<open>class extends type {}\<close> can extend; a value that cannot be extended, for which that
  expression raises a \<^verbatim>\<open>TypeError\<close>, is not among them.
\<close>

definition fileElement ::
  "registries \<Rightarrow> jsval \<Rightarrow> constructable \<Rightarrow> constructable option \<Rightarrow>
   constructable \<times> registries" where
  "fileElement g elementName type0 base =
     (let (type1, g1) =
            (if elementTagsByType g type0 \<noteq> None \<or> type0 = FoundationElement
             then (Extends (classesCreated g) type0,
                   g\<lparr>classesCreated := Suc (classesCreated g)\<rparr>)
             else (type0, g));
          g2 = g1\<lparr>elementTypesByTag := (elementTypesByTag g1)(elementName \<mapsto> type1)\<rparr>;
          g3 = g2\<lparr>elementTagsByType := (elementTagsByType g2)(type1 \<mapsto> elementName)\<rparr>;
          g4 = (case base of
                  None \<Rightarrow> g3
                | Some b \<Rightarrow> g3\<lparr>elementTagsByType := (elementTagsByType g3)(b \<mapsto> elementName)\<rparr>)
      in (type1, g4))"

text \<open>
  The state a call of \<^verbatim>\<open>tryDefineElement\<close> works on: the registries of the module and the
  list \<^verbatim>\<open>elementDefinitionEntries\<close> of the running \<^verbatim>\<open>register\<close> call.
\<close>

record pass =
  globals :: registries
  elementDefinitionEntries :: "elementDefinitionEntry list"

text \<open>
  \<^verbatim>\<open>tryDefineElement\<close>, closed over \<open>disambiguate\<close>, \<open>shadowRootMode\<close> and \<open>container\<close> of
  the \<^verbatim>\<open>register\<close> call. \<open>None\<close>: the loop never ends. \<open>Some (Inl e)\<close>: the callback threw
  \<open>e\<close> (nothing was written before). \<open>Some (Inr s)\<close>: the call returns in state \<open>s\<close>.
\<close>

definition tryDefineElement ::
  "elementDisambiguationCallback \<Rightarrow> shadowRootMode option \<Rightarrow> container \<Rightarrow>
   tryDefineElementArgs \<Rightarrow> pass \<Rightarrow> (exn + pass) option" where
  "tryDefineElement disambiguate shadowRootMode container args s =
     (let extractedParams = extractTryDefineElementParams args;
          elementName = JSString (name extractedParams);
          typeFoundByName = elementTypesByTag (globals s) elementName
      in case disambiguationLoop disambiguate (elementTypesByTag (globals s))
                (type extractedParams) elementName typeFoundByName True of
           None \<Rightarrow> None
         | Some (Inl e) \<Rightarrow> Some (Inl e)
         | Some (Inr None) \<Rightarrow> Some (Inr s)
         | Some (Inr (Some (elementName, needsDefine))) \<Rightarrow>
             (let (type1, g) =
                    (if needsDefine
                     then fileElement (globals s) elementName (type extractedParams)
                            (baseClass extractedParams)
                     else (type extractedParams, globals s))
              in Some (Inr \<lparr>globals = g,
                    elementDefinitionEntries = elementDefinitionEntries s @
                      [newElementDefinitionEntry container elementName type1 shadowRootMode
                         (callback extractedParams) needsDefine]\<rparr>)))"

text \<open>The default policy: \<^verbatim>\<open>() => ElementDisambiguation.definitionCallbackOnly\<close>.\<close>

definition defaultDisambiguate :: elementDisambiguationCallback where
  "defaultDisambiguate nameAttempt typeAttempt existingType = Inr definitionCallbackOnly"

section \<open>The design system and register\<close>

text \<open>\<^verbatim>\<open>designTokenRoot: HTMLElement | null | undefined\<close>\<close>

datatype designTokenRoot = RootUndefined | RootNull | RootElement node

text \<open>The fields of \<^verbatim>\<open>class DefaultDesignSystem\<close>.\<close>

record designSystem =
  designTokensInitialized :: bool
  designTokenRoot :: designTokenRoot
  prefix :: string
  shadowRootMode :: "shadowRootMode option"
  disambiguate :: elementDisambiguationCallback
  owner :: "node option"
  container :: container

definition newDefaultDesignSystem :: "node option \<Rightarrow> container \<Rightarrow> designSystem" where
  "newDefaultDesignSystem own cont =
     \<lparr>designTokensInitialized = False, designTokenRoot = RootUndefined, prefix = ''fast'',
      shadowRootMode = None, disambiguate = defaultDisambiguate, owner = own,
      container = cont\<rparr>"

definition withPrefix :: "designSystem \<Rightarrow> string \<Rightarrow> designSystem" where
  "withPrefix this p = this\<lparr>prefix := p\<rparr>"

definition withShadowRootMode :: "designSystem \<Rightarrow> shadowRootMode \<Rightarrow> designSystem" where
  "withShadowRootMode this m = this\<lparr>shadowRootMode := Some m\<rparr>"

definition withElementDisambiguation ::
  "designSystem \<Rightarrow> elementDisambiguationCallback \<Rightarrow> designSystem" where
  "withElementDisambiguation this cb = this\<lparr>disambiguate := cb\<rparr>"

definition withDesignTokenRoot :: "designSystem \<Rightarrow> node option \<Rightarrow> designSystem" where
  "withDesignTokenRoot this root =
     this\<lparr>designTokenRoot := (case root of None \<Rightarrow> RootNull | Some n \<Rightarrow> RootElement n)\<rparr>"

text \<open>
  What a \<^verbatim>\<open>register\<close> call does to the world outside this module, in order: the token root
  it registers, the configuration callbacks it invokes (with the name, type and
  \<open>willDefine\<close> of the entry), the presentations those callbacks define, and the element
  definitions it asks the platform to define (\<^verbatim>\<open>entry.definition.define()\<close>).
\<close>

datatype event =
  RegisterRoot designTokenRoot
| CallbackInvoked jsval constructable bool
| PresentationDefined jsval componentPresentation container
| ElementDefined fastElementDefinition

definition contextOf :: "registries \<Rightarrow> elementDefinitionEntry \<Rightarrow> elementDefinitionContext" where
  "contextOf g entry =
     \<lparr>ctx_name = entry_name entry, ctx_type = entry_type entry,
      ctx_container = entry_container entry, ctx_willDefine = willDefine entry,
      ctx_shadowRootMode = entry_shadowRootMode entry, ctx_tagFor = tagFor g\<rparr>"

text \<open>\<^verbatim>\<open>defineElement(definition)\<close> and \<^verbatim>\<open>definePresentation(presentation)\<close> of an entry.\<close>

definition defineElement ::
  "elementDefinitionEntry \<Rightarrow> contextualElementDefinition \<Rightarrow> elementDefinitionEntry" where
  "defineElement entry d =
     entry\<lparr>entry_definition :=
       Some \<lparr>def_type = entry_type entry, def_name = entry_name entry, def_options = d\<rparr>\<rparr>"

definition definePresentation :: "elementDefinitionEntry \<Rightarrow> componentPresentation \<Rightarrow> event" where
  "definePresentation entry p = PresentationDefined (entry_name entry) p (entry_container entry)"

fun applyCalls :: "elementDefinitionEntry \<Rightarrow> contextCall list \<Rightarrow> elementDefinitionEntry \<times> event list" where
  "applyCalls entry [] = (entry, [])"
| "applyCalls entry (DefineElement d # calls) = applyCalls (defineElement entry d) calls"
| "applyCalls entry (DefinePresentation p # calls) =
     (let (entry1, evs) = applyCalls entry calls in (entry1, definePresentation entry p # evs))"

text \<open>
  One turn of \<^verbatim>\<open>for (const entry of elementDefinitionEntries)\<close>: the callback, then
  \<^verbatim>\<open>if (entry.willDefine && entry.definition !== null) entry.definition.define()\<close>.
\<close>

definition finishEntry :: "registries \<Rightarrow> elementDefinitionEntry \<Rightarrow> event list" where
  "finishEntry g entry =
     (let (entry1, evs) = applyCalls entry (entry_callback entry (contextOf g entry))
      in CallbackInvoked (entry_name entry) (entry_type entry) (willDefine entry) # evs @
         (if willDefine entry1
          then (case entry_definition entry1 of None \<Rightarrow> [] | Some d \<Rightarrow> [ElementDefined d])
          else []))"

fun finishEntries :: "registries \<Rightarrow> elementDefinitionEntry list \<Rightarrow> event list" where
  "finishEntries g [] = []"
| "finishEntries g (entry # entries) = finishEntry g entry @ finishEntries g entries"

text \<open>
  Modelled from the spec: the DI container (\<^verbatim>\<open>di.ts\<close>) is not among the sources. Of
  \<^verbatim>\<open>container.registerWithContext(context, ...registrations)\<close> the spec says that the
  container invokes the element-defining registrations, each of which calls
  \<^verbatim>\<open>tryDefineElement\<close> zero or more times. A registration is modelled by the calls it
  issues, given \<^verbatim>\<open>context.elementPrefix\<close>; \<open>issueCalls\<close> runs them in the order issued and
  stops at the first exception, which leaves the writes of the earlier calls in place.
\<close>

type_synonym registration = "string \<Rightarrow> tryDefineElementArgs list"

fun issueCalls ::
  "elementDisambiguationCallback \<Rightarrow> shadowRootMode option \<Rightarrow> container \<Rightarrow>
   tryDefineElementArgs list \<Rightarrow> pass \<Rightarrow> (exn option \<times> pass) option" where
  "issueCalls d m c [] s = Some (None, s)"
| "issueCalls d m c (a # calls) s =
     (case tryDefineElement d m c a s of
        None \<Rightarrow> None
      | Some (Inl e) \<Rightarrow> Some (Some e, s)
      | Some (Inr s1) \<Rightarrow> issueCalls d m c calls s1)"

definition registerWithContext ::
  "elementDisambiguationCallback \<Rightarrow> shadowRootMode option \<Rightarrow> container \<Rightarrow> string \<Rightarrow>
   registration list \<Rightarrow> pass \<Rightarrow> (exn option \<times> pass) option" where
  "registerWithContext d m c elementPrefix registrations s =
     issueCalls d m c (concat (map (\<lambda>r. r elementPrefix) registrations)) s"

text \<open>
  \<^verbatim>\<open>register(...registrations)\<close> of a design system, from registries \<open>g\<close>. \<open>None\<close>: a
  disambiguation loop never ends. Otherwise the exception that ended the call (if any),
  the design system and the registries afterwards, and the events in order.
\<close>

record registered =
  thrown :: "exn option"
  system :: designSystem
  registriesAfter :: registries
  events :: "event list"

definition register :: "designSystem \<Rightarrow> registration list \<Rightarrow> registries \<Rightarrow> registered option" where
  "register this registrations g =
     (let rootEvents =
            (if \<not> designTokensInitialized this \<and> designTokenRoot this \<noteq> RootNull
             then [RegisterRoot (designTokenRoot this)] else []);
          this1 = this\<lparr>designTokensInitialized := True\<rparr>
      in case registerWithContext (disambiguate this) (shadowRootMode this) (container this)
                (prefix this) registrations \<lparr>globals = g, elementDefinitionEntries = []\<rparr> of
           None \<Rightarrow> None
         | Some (Some e, s) \<Rightarrow>
             Some \<lparr>thrown = Some e, system = this1, registriesAfter = globals s,
                   events = rootEvents\<rparr>
         | Some (None, s) \<Rightarrow>
             Some \<lparr>thrown = None, system = this1, registriesAfter = globals s,
                   events = rootEvents @ finishEntries (globals s) (elementDefinitionEntries s)\<rparr>)"

section \<open>Registries that registration can reach\<close>

text \<open>
  The two maps are private to the module and written by \<^verbatim>\<open>tryDefineElement\<close> only, so the
  registries the process can be in are those reached from the empty ones by calls of
  \<^verbatim>\<open>tryDefineElement\<close> that return, each with classes that exist at the time of the call.
  With \<open>withBase = False\<close> no call supplies a \<^verbatim>\<open>baseClass\<close>.
\<close>

inductive reachable :: "bool \<Rightarrow> registries \<Rightarrow> bool" for withBase :: bool where
  initial: "reachable withBase initialRegistries"
| call: "reachable withBase (globals s) \<Longrightarrow>
         known (classesCreated (globals s)) (type (extractTryDefineElementParams a)) \<Longrightarrow>
         (case baseClass (extractTryDefineElementParams a) of
            None \<Rightarrow> True
          | Some b \<Rightarrow> withBase \<and> known (classesCreated (globals s)) b) \<Longrightarrow>
         tryDefineElement d m c a s = Some (Inr s1) \<Longrightarrow>
         reachable withBase (globals s1)"

text \<open>
  The invariant as the specification words it: every entry of one map has the reverse
  entry in the other.
\<close>

definition bidirectional :: "registries \<Rightarrow> bool" where
  "bidirectional g =
     (\<forall>tag t. (elementTypesByTag g tag = Some t) = (elementTagsByType g t = Some tag))"

text \<open>
  What holds of every reachable pair of registries, base classes or not: a tag on file for
  a type is a key of the other map, a type on file for a tag is a key of the other map, no
  type is on file for two tags, and every type with a tag is a class that exists.
\<close>

definition registriesInv :: "registries \<Rightarrow> bool" where
  "registriesInv g =
     ((\<forall>t tag. elementTagsByType g t = Some tag \<longrightarrow> elementTypesByTag g tag \<noteq> None) \<and>
      (\<forall>tag t. elementTypesByTag g tag = Some t \<longrightarrow> elementTagsByType g t \<noteq> None) \<and>
      (\<forall>tag tag1 t. elementTypesByTag g tag = Some t \<longrightarrow>
           elementTypesByTag g tag1 = Some t \<longrightarrow> tag = tag1) \<and>
      (\<forall>t. elementTagsByType g t \<noteq> None \<longrightarrow> known (classesCreated g) t))"

section \<open>Policies and runs the claims speak of\<close>

text \<open>
  The callback answers \<^verbatim>\<open>ignoreDuplicate\<close> in a call for type \<open>t\<close> that starts at name
  \<open>n\<close>: either for \<open>n\<close> itself, which is taken, or after renaming \<open>n\<close>, which is taken,
  to a name for which it does.
\<close>

inductive answersIgnore ::
  "elementDisambiguationCallback \<Rightarrow> (jsval \<rightharpoonup> constructable) \<Rightarrow> constructable \<Rightarrow>
   jsval \<Rightarrow> bool" for d typesByTag t where
  now: "typesByTag n = Some existing \<Longrightarrow> d n t existing = Inr ignoreDuplicate \<Longrightarrow>
        answersIgnore d typesByTag t n"
| later: "typesByTag n = Some existing \<Longrightarrow> d n t existing = Inr r \<Longrightarrow>
          r \<noteq> ignoreDuplicate \<Longrightarrow> r \<noteq> definitionCallbackOnly \<Longrightarrow>
          answersIgnore d typesByTag t r \<Longrightarrow> answersIgnore d typesByTag t n"

text \<open>
  A policy that always renames to \<^verbatim>\<open>name + "-2"\<close>. The operator converts \<^verbatim>\<open>null\<close> and
  \<^verbatim>\<open>undefined\<close> to their names and throws a \<^verbatim>\<open>TypeError\<close> on a symbol.
\<close>

definition renameWithSuffix2 :: elementDisambiguationCallback where
  "renameWithSuffix2 nameAttempt typeAttempt existingType =
     (case nameAttempt of
        JSString s \<Rightarrow> Inr (JSString (s @ ''-2''))
      | JSNull \<Rightarrow> Inr (JSString ''null-2'')
      | JSUndefined \<Rightarrow> Inr (JSString ''undefined-2'')
      | JSSymbol k \<Rightarrow> Inl TypeError)"

text \<open>The callbacks a list of events records, and the definitions it asks to define.\<close>

fun callbacksOf :: "event list \<Rightarrow> (jsval \<times> constructable \<times> bool) list" where
  "callbacksOf [] = []"
| "callbacksOf (CallbackInvoked n t w # evs) = (n, t, w) # callbacksOf evs"
| "callbacksOf (ev # evs) = callbacksOf evs"

fun definitionsOf :: "event list \<Rightarrow> fastElementDefinition list" where
  "definitionsOf [] = []"
| "definitionsOf (ElementDefined d # evs) = d # definitionsOf evs"
| "definitionsOf (ev # evs) = definitionsOf evs"

text \<open>
  The entry as its callback leaves it, and the definition that is then defined for it:
  the one in its definition slot, when the entry is marked \<open>willDefine\<close>.
\<close>

definition afterCallback :: "registries \<Rightarrow> elementDefinitionEntry \<Rightarrow> elementDefinitionEntry" where
  "afterCallback g entry = fst (applyCalls entry (entry_callback entry (contextOf g entry)))"

definition definedFor :: "registries \<Rightarrow> elementDefinitionEntry \<Rightarrow> fastElementDefinition list" where
  "definedFor g entry =
     (if willDefine (afterCallback g entry)
      then (case entry_definition (afterCallback g entry) of None \<Rightarrow> [] | Some d \<Rightarrow> [d])
      else [])"

text \<open>
  The end of \<^verbatim>\<open>register\<close> as steps 4 and 5 of the specification word it: first every
  entry's callback, in entry order; and then, for every entry marked \<open>willDefine\<close> whose
  definition slot is filled, the definition, in entry order.
\<close>

definition callbackPhase :: "registries \<Rightarrow> elementDefinitionEntry \<Rightarrow> event list" where
  "callbackPhase g entry =
     CallbackInvoked (entry_name entry) (entry_type entry) (willDefine entry) #
     snd (applyCalls entry (entry_callback entry (contextOf g entry)))"

definition twoPhaseFinish :: "registries \<Rightarrow> elementDefinitionEntry list \<Rightarrow> event list" where
  "twoPhaseFinish g entries =
     concat (map (callbackPhase g) entries) @
     map ElementDefined (concat (map (definedFor g) entries))"

text \<open>\<^verbatim>\<open>register\<close> with its end replaced by the two phases of the specification.\<close>

definition registerTwoPhase ::
  "designSystem \<Rightarrow> registration list \<Rightarrow> registries \<Rightarrow> registered option" where
  "registerTwoPhase this registrations g =
     (let rootEvents =
            (if \<not> designTokensInitialized this \<and> designTokenRoot this \<noteq> RootNull
             then [RegisterRoot (designTokenRoot this)] else []);
          this1 = this\<lparr>designTokensInitialized := True\<rparr>
      in case registerWithContext (disambiguate this) (shadowRootMode this) (container this)
                (prefix this) registrations \<lparr>globals = g, elementDefinitionEntries = []\<rparr> of
           None \<Rightarrow> None
         | Some (Some e, s) \<Rightarrow>
             Some \<lparr>thrown = Some e, system = this1, registriesAfter = globals s,
                   events = rootEvents\<rparr>
         | Some (None, s) \<Rightarrow>
             Some \<lparr>thrown = None, system = this1, registriesAfter = globals s,
                   events = rootEvents @ twoPhaseFinish (globals s) (elementDefinitionEntries s)\<rparr>)"

section \<open>Locating the design system of a node\<close>

text \<open>
  Design systems are objects; \<open>systems\<close> is the heap of those made so far, and a design
  system is identified by its position there. The rest of the state the locator works on:
  the DOM (for each node its proper ancestors, nearest first), the \<^verbatim>\<open>$$designSystem$$\<close>
  property of the nodes, the nodes that have a DOM container, the design system registered
  as an instance on a container itself, and \<^verbatim>\<open>let rootDesignSystem: DesignSystem | null\<close>.
\<close>

type_synonym systemId = nat

record locator =
  ancestors :: "node \<Rightarrow> node list"
  designSystemOf :: "node \<rightharpoonup> systemId"
  hasContainer :: "node \<Rightarrow> bool"
  instances :: "container \<rightharpoonup> systemId"
  rootDesignSystem :: "systemId option"
  systems :: "designSystem list"

definition initialLocator :: "(node \<Rightarrow> node list) \<Rightarrow> locator" where
  "initialLocator tree =
     \<lparr>ancestors = tree, designSystemOf = Map.empty, hasContainer = (\<lambda>n. False),
      instances = Map.empty, rootDesignSystem = None, systems = []\<rparr>"

text \<open>
  \<^verbatim>\<open>constructor(private owner: any, private container: Container) {
  if (owner !== null) { owner.$$designSystem$$ = this; } }\<close>
\<close>

definition constructDefaultDesignSystem ::
  "node option \<Rightarrow> container \<Rightarrow> locator \<Rightarrow> systemId \<times> locator" where
  "constructDefaultDesignSystem own cont w =
     (let this = length (systems w);
          w1 = w\<lparr>systems := systems w @ [newDefaultDesignSystem own cont]\<rparr>
      in (this, case own of
                  None \<Rightarrow> w1
                | Some n \<Rightarrow> w1\<lparr>designSystemOf := (designSystemOf w1)(n \<mapsto> this)\<rparr>))"

text \<open>
  Modelled from the spec: the DI module (\<^verbatim>\<open>di.ts\<close>) is not among the sources. The spec says
  of it: \<^verbatim>\<open>getOrCreate\<close> obtains or creates a DI container scoped to the node;
  \<^verbatim>\<open>get(key)\<close> and \<^verbatim>\<open>has(key, searchAncestors)\<close> resolve or probe for a singleton by key,
  honoring a scoped, hierarchical container tree; \<^verbatim>\<open>responsibleFor\<close> walks up the DOM
  ownership chain to find the nearest DI container. So: \<open>getOrCreateDOMContainer\<close> gives
  the node its container; the containers above a node's container are those of its
  ancestors that have one, nearest first, and then the root container; \<open>containerHas\<close> is
  \<^verbatim>\<open>has(designSystemKey, false)\<close>, which looks at the container alone; \<open>containerGet\<close> is
  \<^verbatim>\<open>get(designSystemKey)\<close>, the instance of the nearest container that has one, and
  otherwise the default of the key; \<open>findResponsibleContainer\<close> is the nearest container on
  the way up from the element, and otherwise the root container.
\<close>

definition getOrCreateDOMContainer :: "node \<Rightarrow> locator \<Rightarrow> container \<times> locator" where
  "getOrCreateDOMContainer n w = (NodeContainer n, w\<lparr>hasContainer := (hasContainer w)(n := True)\<rparr>)"

fun containerPath :: "locator \<Rightarrow> container \<Rightarrow> container list" where
  "containerPath w RootContainer = [RootContainer]"
| "containerPath w (NodeContainer n) =
     NodeContainer n # map NodeContainer (filter (hasContainer w) (ancestors w n)) @ [RootContainer]"

fun firstInstance :: "(container \<rightharpoonup> systemId) \<Rightarrow> container list \<Rightarrow> systemId option" where
  "firstInstance inst [] = None"
| "firstInstance inst (c # cs) =
     (case inst c of Some d \<Rightarrow> Some d | None \<Rightarrow> firstInstance inst cs)"

definition containerHas :: "locator \<Rightarrow> container \<Rightarrow> bool" where
  "containerHas w c = (instances w c \<noteq> None)"

definition findResponsibleContainer :: "node \<Rightarrow> locator \<Rightarrow> container" where
  "findResponsibleContainer element w =
     (case filter (hasContainer w) (element # ancestors w element) of
        [] \<Rightarrow> RootContainer
      | n # ns \<Rightarrow> NodeContainer n)"

text \<open>
  The default of \<^verbatim>\<open>designSystemKey\<close>, from the source:
  \<^verbatim>\<open>x.cachedCallback(handler => { if (rootDesignSystem === null) { rootDesignSystem =
  new DefaultDesignSystem(null, handler); } return rootDesignSystem; })\<close>
\<close>

definition resolveDefault :: "container \<Rightarrow> locator \<Rightarrow> systemId \<times> locator" where
  "resolveDefault handler w =
     (case rootDesignSystem w of
        None \<Rightarrow>
          (let (d, w1) = constructDefaultDesignSystem None handler w
           in (d, w1\<lparr>rootDesignSystem := Some d\<rparr>))
      | Some d \<Rightarrow> (d, w))"

definition containerGet :: "container \<Rightarrow> locator \<Rightarrow> systemId \<times> locator" where
  "containerGet c w =
     (case firstInstance (instances w) (containerPath w c) of
        Some d \<Rightarrow> (d, w)
      | None \<Rightarrow> resolveDefault RootContainer w)"

text \<open>\<^verbatim>\<open>DesignSystem.responsibleFor(element)\<close> and \<^verbatim>\<open>DesignSystem.getOrCreate(node?)\<close>.\<close>

definition responsibleFor :: "node \<Rightarrow> locator \<Rightarrow> systemId \<times> locator" where
  "responsibleFor element w =
     (case designSystemOf w element of
        Some owned \<Rightarrow> (owned, w)
      | None \<Rightarrow> containerGet (findResponsibleContainer element w) w)"

definition getOrCreate :: "node option \<Rightarrow> locator \<Rightarrow> systemId \<times> locator" where
  "getOrCreate node w =
     (case node of
        None \<Rightarrow>
          (case rootDesignSystem w of
             None \<Rightarrow>
               (let (d, w1) = containerGet RootContainer w in (d, w1\<lparr>rootDesignSystem := Some d\<rparr>))
           | Some d \<Rightarrow> (d, w))
      | Some n \<Rightarrow>
          (case designSystemOf w n of
             Some owned \<Rightarrow> (owned, w)
           | None \<Rightarrow>
               (let (cont, w1) = getOrCreateDOMContainer n w
                in if containerHas w1 cont then containerGet cont w1
                   else (let (system, w2) = constructDefaultDesignSystem (Some n) cont w1
                         in (system, w2\<lparr>instances := (instances w2)(cont \<mapsto> system)\<rparr>)))))"

text \<open>
  The states the locator can be in over a DOM: from the start of the process, by calls of
  \<^verbatim>\<open>getOrCreate\<close> and \<^verbatim>\<open>responsibleFor\<close>, and by other code giving a node a container.
\<close>

inductive locatorReachable :: "(node \<Rightarrow> node list) \<Rightarrow> locator \<Rightarrow> bool" for tree where
  start: "locatorReachable tree (initialLocator tree)"
| created: "locatorReachable tree w \<Longrightarrow> locatorReachable tree (snd (getOrCreate node w))"
| located: "locatorReachable tree w \<Longrightarrow> locatorReachable tree (snd (responsibleFor element w))"
| scoped: "locatorReachable tree w \<Longrightarrow> locatorReachable tree (snd (getOrCreateDOMContainer n w))"

text \<open>A DOM is a tree: the ancestors of a node's parent are the node's other ancestors.\<close>

definition domTree :: "(node \<Rightarrow> node list) \<Rightarrow> bool" where
  "domTree tree = (\<forall>n. case tree n of [] \<Rightarrow> True | p # rest \<Rightarrow> tree p = rest)"

text \<open>A small DOM: node 3 is a child of node 2, which is a child of node 1.\<close>

definition sampleDom :: "node \<Rightarrow> node list" where
  "sampleDom n = (if n = 3 then [2, 1] else if n = 2 then [1] else [])"

text \<open>What holds of every reachable state of the locator.\<close>

definition locatorInv :: "(node \<Rightarrow> node list) \<Rightarrow> locator \<Rightarrow> bool" where
  "locatorInv tree w =
     (ancestors w = tree \<and>
      (\<forall>n d. designSystemOf w n = Some d \<longrightarrow>
         instances w (NodeContainer n) = Some d \<and> hasContainer w n \<and> d < length (systems w)) \<and>
      (\<forall>c d. instances w c = Some d \<longrightarrow> (\<exists>n. c = NodeContainer n \<and> designSystemOf w n = Some d)) \<and>
      (\<forall>d. rootDesignSystem w = Some d \<longrightarrow>
         d < length (systems w) \<and> (\<forall>n. designSystemOf w n \<noteq> Some d)) \<and>
      (\<forall>n n1 d. designSystemOf w n = Some d \<longrightarrow> designSystemOf w n1 = Some d \<longrightarrow> n = n1))"

section \<open>The disambiguation loop\<close>

lemma sentinels_distinct: "ignoreDuplicate \<noteq> definitionCallbackOnly"
  by (simp add: ignoreDuplicate_def definitionCallbackOnly_def)

lemma loop_None: "disambiguationLoop d tbt t n None b = Some (Inr (Some (n, b)))"
  by (subst disambiguationLoop.simps) simp

lemma loop_throw: "d n t ex = Inl e \<Longrightarrow> disambiguationLoop d tbt t n (Some ex) b = Some (Inl e)"
  by (subst disambiguationLoop.simps) simp

lemma loop_ignore: "d n t ex = Inr ignoreDuplicate \<Longrightarrow> disambiguationLoop d tbt t n (Some ex) b = Some (Inr None)"
  by (subst disambiguationLoop.simps) simp

lemma loop_callbackOnly: "d n t ex = Inr definitionCallbackOnly \<Longrightarrow> disambiguationLoop d tbt t n (Some ex) b = Some (Inr (Some (n, False)))"
  by (subst disambiguationLoop.simps) (simp add: loop_None sentinels_distinct [symmetric])

lemma loop_rename: "d n t ex = Inr r \<Longrightarrow> r \<noteq> ignoreDuplicate \<Longrightarrow> r \<noteq> definitionCallbackOnly \<Longrightarrow>
   disambiguationLoop d tbt t n (Some ex) b = disambiguationLoop d tbt t r (tbt r) b"
  by (subst disambiguationLoop.simps) simp

lemma loop_exit_aux:
  assumes "disambiguationLoop d tbt t n found b = Some y"
  shows "(found = None \<longrightarrow> y = Inr (Some (n, b))) \<and>
         (\<forall>n'. y = Inr (Some (n', True)) \<longrightarrow> b \<and> (found = tbt n \<longrightarrow> tbt n' = None)) \<and>
         (\<forall>n'. y = Inr (Some (n', False)) \<longrightarrow> b \<longrightarrow> found = tbt n \<longrightarrow>
            (\<exists>ex. tbt n' = Some ex \<and> d n' t ex = Inr definitionCallbackOnly))"
proof (rule disambiguationLoop.raw_induct [OF _ assms], goal_cases)
  case (1 loop d tbt t n found b y)
  note IH = 1(1) and body = 1(2)
  show ?case
  proof (cases found)
    case None
    with body show ?thesis by auto
  next
    case (Some ex)
    show ?thesis
    proof (cases "d n t ex")
      case (Inl e)
      with Some body show ?thesis by auto
    next
      case (Inr r)
      consider "r = ignoreDuplicate" | "r \<noteq> ignoreDuplicate" "r = definitionCallbackOnly"
        | "r \<noteq> ignoreDuplicate" "r \<noteq> definitionCallbackOnly" by blast
      then show ?thesis
      proof cases
        case 1
        with Some Inr body show ?thesis by auto
      next
        case 2
        with Some Inr body have "loop d tbt t n None False = Some y" by simp
        from IH [OF this] have "y = Inr (Some (n, False))" by simp
        with Some Inr 2 show ?thesis by (auto simp: eq_commute [of "Some ex"])
      next
        case 3
        with Some Inr body have "loop d tbt t r (tbt r) b = Some y" by simp
        from IH [OF this] Some show ?thesis by auto
      qed
    qed
  qed
qed


lemma fileElement_type:
  "fst (fileElement g n t base) =
     (if elementTagsByType g t \<noteq> None \<or> t = FoundationElement
      then Extends (classesCreated g) t else t)"
  by (simp add: fileElement_def Let_def split: option.split)

lemma fileElement_typesByTag:
  "elementTypesByTag (snd (fileElement g n t base)) =
     (elementTypesByTag g)(n \<mapsto> fst (fileElement g n t base))"
  by (simp add: fileElement_def Let_def split: option.split)

lemma fileElement_tagsByType:
  "elementTagsByType (snd (fileElement g n t base)) =
     (case base of
        None \<Rightarrow> (elementTagsByType g)(fst (fileElement g n t base) \<mapsto> n)
      | Some b \<Rightarrow> (elementTagsByType g)(fst (fileElement g n t base) \<mapsto> n, b \<mapsto> n))"
  by (simp add: fileElement_def Let_def split: option.split)

lemma fileElement_classesCreated:
  "classesCreated (snd (fileElement g n t base)) =
     (if elementTagsByType g t \<noteq> None \<or> t = FoundationElement
      then Suc (classesCreated g) else classesCreated g)"
  by (simp add: fileElement_def Let_def split: option.split)

lemma tryDefineElement_cases:
  assumes "tryDefineElement d m c a s = Some (Inr s1)"
  defines "p \<equiv> extractTryDefineElementParams a"
  shows "s1 = s
       \<or> (\<exists>n ex. elementTypesByTag (globals s) n = Some ex \<and>
            d n (type p) ex = Inr definitionCallbackOnly \<and>
            s1 = \<lparr>globals = globals s, elementDefinitionEntries = elementDefinitionEntries s @
                    [newElementDefinitionEntry c n (type p) m (callback p) False]\<rparr>)
       \<or> (\<exists>n. elementTypesByTag (globals s) n = None \<and>
            s1 = \<lparr>globals = snd (fileElement (globals s) n (type p) (baseClass p)),
                  elementDefinitionEntries = elementDefinitionEntries s @
                    [newElementDefinitionEntry c n
                       (fst (fileElement (globals s) n (type p) (baseClass p))) m
                       (callback p) True]\<rparr>)"
proof -
  let ?tbt = "elementTypesByTag (globals s)"
  let ?n0 = "JSString (name p)"
  obtain y where run: "disambiguationLoop d ?tbt (type p) ?n0 (?tbt ?n0) True = Some y"
    using assms(1) unfolding tryDefineElement_def p_def
    by (cases "disambiguationLoop d ?tbt (type (extractTryDefineElementParams a))
          (JSString (name (extractTryDefineElementParams a)))
          (?tbt (JSString (name (extractTryDefineElementParams a)))) True")
       (auto simp: Let_def)
  note exit = loop_exit_aux [OF run]
  show ?thesis
  proof (cases y)
    case (Inl e)
    with run assms(1) show ?thesis
      by (simp add: tryDefineElement_def p_def Let_def)
  next
    case (Inr r)
    show ?thesis
    proof (cases r)
      case None
      with Inr run assms(1) show ?thesis
        by (simp add: tryDefineElement_def p_def Let_def)
    next
      case (Some nb)
      obtain n b where nb: "nb = (n, b)" by (cases nb)
      show ?thesis
      proof (cases b)
        case True
        with exit Inr Some nb have "?tbt n = None" by simp
        moreover from True Inr Some nb run assms(1)
        have "s1 = \<lparr>globals = snd (fileElement (globals s) n (type p) (baseClass p)),
                  elementDefinitionEntries = elementDefinitionEntries s @
                    [newElementDefinitionEntry c n
                       (fst (fileElement (globals s) n (type p) (baseClass p))) m
                       (callback p) True]\<rparr>"
          by (simp add: tryDefineElement_def p_def Let_def split_beta)
        ultimately show ?thesis by blast
      next
        case False
        with exit Inr Some nb
        obtain ex where "?tbt n = Some ex" "d n (type p) ex = Inr definitionCallbackOnly"
          by auto
        moreover from False Inr Some nb run assms(1)
        have "s1 = \<lparr>globals = globals s, elementDefinitionEntries = elementDefinitionEntries s @
                    [newElementDefinitionEntry c n (type p) m (callback p) False]\<rparr>"
          by (simp add: tryDefineElement_def p_def Let_def)
        ultimately show ?thesis by blast
      qed
    qed
  qed
qed


lemma known_Suc: "known n t \<Longrightarrow> known (Suc n) t"
  by (induction t) auto

lemma fileElement_fresh:
  assumes "\<forall>t. elementTagsByType g t \<noteq> None \<longrightarrow> known (classesCreated g) t"
  shows "elementTagsByType g (fst (fileElement g n t base)) = None"
proof (cases "elementTagsByType g t \<noteq> None \<or> t = FoundationElement")
  case True
  have "\<not> known (classesCreated g) (Extends (classesCreated g) t)" by simp
  with assms have "elementTagsByType g (Extends (classesCreated g) t) = None" by blast
  with True show ?thesis by (simp add: fileElement_type)
next
  case False
  then show ?thesis by (simp add: fileElement_type)
qed

lemma fileElement_inv:
  assumes inv: "registriesInv g"
    and free: "elementTypesByTag g n = None"
    and kt: "known (classesCreated g) t"
    and kb: "\<forall>b. base = Some b \<longrightarrow> known (classesCreated g) b"
  shows "registriesInv (snd (fileElement g n t base))"
proof -
  let ?t1 = "fst (fileElement g n t base)"
  let ?g = "snd (fileElement g n t base)"
  from inv have fresh: "elementTagsByType g ?t1 = None"
    by (intro fileElement_fresh) (simp add: registriesInv_def)
  have notin: "elementTypesByTag g n' \<noteq> Some ?t1" for n'
    using inv fresh unfolding registriesInv_def by (metis option.distinct(1))
  have k1: "known (classesCreated ?g) ?t1"
    using kt by (auto simp: fileElement_type fileElement_classesCreated known_Suc)
  have mono: "known (classesCreated g) u \<Longrightarrow> known (classesCreated ?g) u" for u
    by (simp add: fileElement_classesCreated known_Suc)
  have a: "\<forall>u m. elementTagsByType ?g u = Some m \<longrightarrow> elementTypesByTag ?g m \<noteq> None"
    using inv unfolding registriesInv_def fileElement_typesByTag fileElement_tagsByType
    by (auto split: option.splits if_splits)
  have b: "\<forall>m u. elementTypesByTag ?g m = Some u \<longrightarrow> elementTagsByType ?g u \<noteq> None"
    using inv unfolding registriesInv_def fileElement_typesByTag fileElement_tagsByType
    by (auto split: option.splits if_splits)
  have c: "\<forall>m m' u. elementTypesByTag ?g m = Some u \<longrightarrow> elementTypesByTag ?g m' = Some u \<longrightarrow> m = m'"
    using inv notin unfolding registriesInv_def fileElement_typesByTag
    by (auto split: if_splits)
  have d: "\<forall>u. elementTagsByType ?g u \<noteq> None \<longrightarrow> known (classesCreated ?g) u"
    using inv k1 mono kb unfolding registriesInv_def fileElement_tagsByType
    by (auto split: option.splits if_splits)
  from a b c d show ?thesis unfolding registriesInv_def by blast
qed

lemma fileElement_bidirectional:
  assumes inv: "registriesInv g" and bi: "bidirectional g"
    and free: "elementTypesByTag g n = None"
  shows "bidirectional (snd (fileElement g n t None))"
proof -
  let ?t1 = "fst (fileElement g n t None)"
  from inv have fresh: "elementTagsByType g ?t1 = None"
    by (intro fileElement_fresh) (simp add: registriesInv_def)
  have noTag: "elementTagsByType g u \<noteq> Some n" for u
    using bi free unfolding bidirectional_def by (metis option.distinct(1))
  have noType: "elementTypesByTag g m \<noteq> Some ?t1" for m
    using bi fresh unfolding bidirectional_def by (metis option.distinct(1))
  have old: "(elementTypesByTag g m = Some u) = (elementTagsByType g u = Some m)" for m u
    using bi unfolding bidirectional_def by blast
  show ?thesis
    unfolding bidirectional_def fileElement_typesByTag fileElement_tagsByType
    using noTag noType old by auto
qed

lemma reachable_inv: "reachable wb g \<Longrightarrow> registriesInv g \<and> (\<not> wb \<longrightarrow> bidirectional g)"
proof (induction rule: reachable.induct)
  case initial
  show ?case by (simp add: registriesInv_def bidirectional_def initialRegistries_def)
next
  case (call s a d m c s1)
  let ?p = "extractTryDefineElementParams a"
  from tryDefineElement_cases [OF call.hyps(4)]
  consider "globals s1 = globals s"
    | n where "elementTypesByTag (globals s) n = None"
        "globals s1 = snd (fileElement (globals s) n (type ?p) (baseClass ?p))"
    by auto
  then show ?case
  proof cases
    case 1
    with call.IH show ?thesis by simp
  next
    case 2
    have kb: "\<forall>b. baseClass ?p = Some b \<longrightarrow> known (classesCreated (globals s)) b"
      using call.hyps(3) by (auto split: option.splits)
    have "registriesInv (globals s1)"
      unfolding 2(2) using call.IH 2(1) call.hyps(2) kb by (intro fileElement_inv) auto
    moreover have "bidirectional (globals s1)" if "\<not> wb"
    proof -
      from that call.hyps(3) have "baseClass ?p = None" by (auto split: option.splits)
      with 2 that call.IH show ?thesis by (simp add: fileElement_bidirectional)
    qed
    ultimately show ?thesis by blast
  qed
qed

section \<open>Lookup of a type that was never filed\<close>

text \<open>
  Claim C9. For every type that has no entry in the type-to-tag registry,
  \<^verbatim>\<open>DesignSystem.tagFor(type)\<close> returns \<^verbatim>\<open>undefined\<close>, the absence of a tag. The lookup has
  no failing branch: it is a total function of the registries and the type.
\<close>

theorem tagFor_never_filed:
  "elementTagsByType g t = None \<Longrightarrow> tagFor g t = JSUndefined"
  by (simp add: tagFor_def)

theorem tagFor_never_filed_witness:
  "elementTagsByType initialRegistries (Class ''Button'') = None \<and>
   tagFor initialRegistries (Class ''Button'') = JSUndefined"
proof -
  have absent: "elementTagsByType initialRegistries (Class ''Button'') = None"
    by (simp add: initialRegistries_def)
  from absent tagFor_never_filed [OF absent] show ?thesis by simp
qed

section \<open>Calls that return at once, and the events of an entry\<close>

lemma tryDefineElement_free:
  assumes "p = extractTryDefineElementParams a"
    and "elementTypesByTag (globals s) (JSString (name p)) = None"
  shows "tryDefineElement d m c a s =
     Some (Inr \<lparr>globals = snd (fileElement (globals s) (JSString (name p)) (type p) (baseClass p)),
       elementDefinitionEntries = elementDefinitionEntries s @
         [newElementDefinitionEntry c (JSString (name p))
            (fst (fileElement (globals s) (JSString (name p)) (type p) (baseClass p))) m
            (callback p) True]\<rparr>)"
  using assms by (simp add: tryDefineElement_def Let_def loop_None split_beta)

lemma tryDefineElement_callbackOnly:
  assumes "p = extractTryDefineElementParams a"
    and "elementTypesByTag (globals s) (JSString (name p)) = Some existing"
    and "d (JSString (name p)) (type p) existing = Inr definitionCallbackOnly"
  shows "tryDefineElement d m c a s =
     Some (Inr \<lparr>globals = globals s,
       elementDefinitionEntries = elementDefinitionEntries s @
         [newElementDefinitionEntry c (JSString (name p)) (type p) m (callback p) False]\<rparr>)"
  using assms by (simp add: tryDefineElement_def Let_def loop_callbackOnly)

lemma answersIgnore_loop:
  "answersIgnore d tbt t n \<Longrightarrow> disambiguationLoop d tbt t n (tbt n) b = Some (Inr None)"
proof (induction rule: answersIgnore.induct)
  case (now n existing)
  then show ?case by (simp add: loop_ignore)
next
  case (later n existing r)
  then show ?case by (simp add: loop_rename)
qed

lemma tryDefineElement_ignored:
  assumes "p = extractTryDefineElementParams a"
    and "answersIgnore d (elementTypesByTag (globals s)) (type p) (JSString (name p))"
  shows "tryDefineElement d m c a s = Some (Inr s)"
  using assms by (simp add: tryDefineElement_def Let_def answersIgnore_loop)

lemma callbacksOf_append: "callbacksOf (xs @ ys) = callbacksOf xs @ callbacksOf ys"
  by (induction xs rule: callbacksOf.induct) auto

lemma definitionsOf_append: "definitionsOf (xs @ ys) = definitionsOf xs @ definitionsOf ys"
  by (induction xs rule: definitionsOf.induct) auto

lemma applyCalls_willDefine: "willDefine (fst (applyCalls entry calls)) = willDefine entry"
  by (induction entry calls rule: applyCalls.induct) (auto simp: defineElement_def split_beta)

lemma applyCalls_callbacksOf: "callbacksOf (snd (applyCalls entry calls)) = []"
  by (induction entry calls rule: applyCalls.induct) (auto simp: definePresentation_def split_beta)

lemma applyCalls_definitionsOf: "definitionsOf (snd (applyCalls entry calls)) = []"
  by (induction entry calls rule: applyCalls.induct) (auto simp: definePresentation_def split_beta)

lemma finishEntry_split:
  "finishEntry g entry = callbackPhase g entry @ map ElementDefined (definedFor g entry)"
  by (simp add: finishEntry_def callbackPhase_def definedFor_def afterCallback_def split_beta
      split: option.split)

lemma definitionsOf_map: "definitionsOf (map ElementDefined ds) = ds"
  by (induction ds) auto

lemma callbacksOf_map: "callbacksOf (map ElementDefined ds) = []"
  by (induction ds) auto

lemma callbackPhase_callbacksOf:
  "callbacksOf (callbackPhase g entry) = [(entry_name entry, entry_type entry, willDefine entry)]"
  by (simp add: callbackPhase_def applyCalls_callbacksOf)

lemma callbackPhase_definitionsOf: "definitionsOf (callbackPhase g entry) = []"
  by (simp add: callbackPhase_def applyCalls_definitionsOf)

lemma finishEntries_concat: "finishEntries g entries = concat (map (finishEntry g) entries)"
  by (induction entries) auto

lemma finishEntries_callbacksOf:
  "callbacksOf (finishEntries g entries) =
     map (\<lambda>entry. (entry_name entry, entry_type entry, willDefine entry)) entries"
  by (induction entries)
     (auto simp: finishEntry_split callbacksOf_append callbackPhase_callbacksOf callbacksOf_map)

lemma finishEntries_definitionsOf:
  "definitionsOf (finishEntries g entries) = concat (map (definedFor g) entries)"
  by (induction entries)
     (auto simp: finishEntry_split definitionsOf_append callbackPhase_definitionsOf definitionsOf_map)

lemma definedFor_not_willDefine: "\<not> willDefine entry \<Longrightarrow> definedFor g entry = []"
  by (simp add: definedFor_def afterCallback_def applyCalls_willDefine)

lemma definitionsOf_mem: "ElementDefined d \<in> set evs \<longleftrightarrow> d \<in> set (definitionsOf evs)"
  by (induction evs rule: definitionsOf.induct) auto

lemma callbacksOf_mem: "CallbackInvoked n t w \<in> set evs \<longleftrightarrow> (n, t, w) \<in> set (callbacksOf evs)"
  by (induction evs rule: callbacksOf.induct) auto

section \<open>A collision answered with definitionCallbackOnly\<close>

lemma issueCalls_single_ok:
  "tryDefineElement d m c a s = Some (Inr s1) \<Longrightarrow> issueCalls d m c [a] s = Some (None, s1)"
  by simp

lemma register_single:
  assumes "tryDefineElement (disambiguate this) (shadowRootMode this) (container this) a
             \<lparr>globals = g, elementDefinitionEntries = []\<rparr> = Some (Inr s1)"
  shows "register this [\<lambda>elementPrefix. [a]] g =
     Some \<lparr>thrown = None, system = this\<lparr>designTokensInitialized := True\<rparr>,
           registriesAfter = globals s1,
           events = (if \<not> designTokensInitialized this \<and> designTokenRoot this \<noteq> RootNull
                     then [RegisterRoot (designTokenRoot this)] else []) @
                    finishEntries (globals s1) (elementDefinitionEntries s1)\<rparr>"
  using assms by (simp add: register_def registerWithContext_def Let_def)

lemma rooted_callbacksOf:
  "callbacksOf ((if c then [RegisterRoot r] else []) @ finishEntries g es) =
     map (\<lambda>entry. (entry_name entry, entry_type entry, willDefine entry)) es"
  by (simp add: callbacksOf_append finishEntries_callbacksOf)

lemma rooted_definitionsOf:
  "definitionsOf ((if c then [RegisterRoot r] else []) @ finishEntries g es) =
     concat (map (definedFor g) es)"
  by (simp add: definitionsOf_append finishEntries_definitionsOf)

text \<open>
  Claim C10. When the attempted name is on file and the disambiguation callback answers
  \<^verbatim>\<open>definitionCallbackOnly\<close> (as the default policy does), the call writes to neither
  registry: it returns with the registries as they were and one more entry, with
  \<open>willDefine = False\<close>. A \<^verbatim>\<open>register\<close> call that issues this one attempt leaves the
  registries as they were, so \<^verbatim>\<open>tagFor\<close> answers as before, and \<^verbatim>\<open>undefined\<close> for a new type
  that had no tag; it invokes the entry's callback and asks for no definition.
\<close>

theorem callbackOnly_frame:
  assumes "p = extractTryDefineElementParams a"
    and "elementTypesByTag g (JSString (name p)) = Some existing"
    and "disambiguate this (JSString (name p)) (type p) existing = Inr definitionCallbackOnly"
  shows "tryDefineElement (disambiguate this) (shadowRootMode this) (container this) a
           \<lparr>globals = g, elementDefinitionEntries = entries\<rparr> =
         Some (Inr \<lparr>globals = g, elementDefinitionEntries = entries @
           [newElementDefinitionEntry (container this) (JSString (name p)) (type p)
              (shadowRootMode this) (callback p) False]\<rparr>) \<and>
         (\<exists>r. register this [\<lambda>elementPrefix. [a]] g = Some r \<and> thrown r = None \<and>
            registriesAfter r = g \<and>
            (\<forall>t. tagFor (registriesAfter r) t = tagFor g t) \<and>
            (elementTagsByType g (type p) = None \<longrightarrow>
               tagFor (registriesAfter r) (type p) = JSUndefined) \<and>
            callbacksOf (events r) = [(JSString (name p), type p, False)] \<and>
            definitionsOf (events r) = [])"
proof -
  have call: "tryDefineElement (disambiguate this) (shadowRootMode this) (container this) a
           \<lparr>globals = g, elementDefinitionEntries = es\<rparr> =
         Some (Inr \<lparr>globals = g, elementDefinitionEntries = es @
           [newElementDefinitionEntry (container this) (JSString (name p)) (type p)
              (shadowRootMode this) (callback p) False]\<rparr>)" for es
    using tryDefineElement_callbackOnly [OF assms(1), of "\<lparr>globals = g, elementDefinitionEntries = es\<rparr>" existing "disambiguate this"] assms(2,3)
    by simp
  let ?e = "newElementDefinitionEntry (container this) (JSString (name p)) (type p)
              (shadowRootMode this) (callback p) False"
  have e: "willDefine ?e = False" "entry_name ?e = JSString (name p)" "entry_type ?e = type p"
    by (simp_all add: newElementDefinitionEntry_def)
  let ?r = "\<lparr>thrown = None, system = this\<lparr>designTokensInitialized := True\<rparr>,
           registriesAfter = g,
           events = (if \<not> designTokensInitialized this \<and> designTokenRoot this \<noteq> RootNull
                     then [RegisterRoot (designTokenRoot this)] else []) @
                    finishEntries g [?e]\<rparr>"
  have reg: "register this [\<lambda>elementPrefix. [a]] g = Some ?r"
    using register_single [OF call [of "[]"]] by simp
  have cbs: "callbacksOf (events ?r) = [(JSString (name p), type p, False)]"
    by (simp add: rooted_callbacksOf e del: finishEntries.simps)
  have defs: "definitionsOf (events ?r) = []"
    by (simp add: rooted_definitionsOf definedFor_not_willDefine e del: finishEntries.simps)
  have tag: "elementTagsByType g (type p) = None \<longrightarrow> tagFor (registriesAfter ?r) (type p) = JSUndefined"
    by (simp add: tagFor_def)
  from reg cbs defs tag have "\<exists>r. register this [\<lambda>elementPrefix. [a]] g = Some r \<and> thrown r = None \<and>
            registriesAfter r = g \<and>
            (\<forall>t. tagFor (registriesAfter r) t = tagFor g t) \<and>
            (elementTagsByType g (type p) = None \<longrightarrow>
               tagFor (registriesAfter r) (type p) = JSUndefined) \<and>
            callbacksOf (events r) = [(JSString (name p), type p, False)] \<and>
            definitionsOf (events r) = []"
    by (intro exI [of _ ?r]) simp
  with call [of entries] show ?thesis by blast
qed

theorem callbackOnly_frame_witness:
  "\<exists>r. register (newDefaultDesignSystem None RootContainer)
          [\<lambda>elementPrefix. [Positional ''my-button'' (Class ''Other'') (\<lambda>ctx. [DefineElement ''d''])]]
          \<lparr>elementTypesByTag = [JSString ''my-button'' \<mapsto> Class ''Button''],
           elementTagsByType = [Class ''Button'' \<mapsto> JSString ''my-button''],
           classesCreated = 0\<rparr> = Some r \<and>
        registriesAfter r =
          \<lparr>elementTypesByTag = [JSString ''my-button'' \<mapsto> Class ''Button''],
           elementTagsByType = [Class ''Button'' \<mapsto> JSString ''my-button''],
           classesCreated = 0\<rparr> \<and>
        tagFor (registriesAfter r) (Class ''Other'') = JSUndefined \<and>
        callbacksOf (events r) = [(JSString ''my-button'', Class ''Other'', False)] \<and>
        definitionsOf (events r) = []"
proof -
  let ?a = "Positional ''my-button'' (Class ''Other'') (\<lambda>ctx. [DefineElement ''d''])"
  let ?g = "\<lparr>elementTypesByTag = [JSString ''my-button'' \<mapsto> Class ''Button''],
           elementTagsByType = [Class ''Button'' \<mapsto> JSString ''my-button''],
           classesCreated = 0\<rparr>"
  let ?sys = "newDefaultDesignSystem None RootContainer"
  have h1: "extractTryDefineElementParams ?a = extractTryDefineElementParams ?a" by simp
  have h2: "elementTypesByTag ?g (JSString (name (extractTryDefineElementParams ?a))) =
              Some (Class ''Button'')" by simp
  have h3: "disambiguate ?sys (JSString (name (extractTryDefineElementParams ?a)))
              (type (extractTryDefineElementParams ?a)) (Class ''Button'') =
            Inr definitionCallbackOnly"
    by (simp add: newDefaultDesignSystem_def defaultDisambiguate_def)
  from callbackOnly_frame [OF h1 h2 h3] show ?thesis by auto
qed

section \<open>A collision answered with ignoreDuplicate\<close>

lemma issueCalls_ignored:
  assumes "p = extractTryDefineElementParams a"
    and "answersIgnore d (elementTypesByTag (globals s)) (type p) (JSString (name p))"
  shows "issueCalls d m c (a # calls) s = issueCalls d m c calls s"
  using tryDefineElement_ignored [OF assms, of m c] by simp

text \<open>
  Claim C3. When the disambiguation callback answers \<^verbatim>\<open>ignoreDuplicate\<close> for a collision
  of the attempt (for the attempted name, or for a name it renamed the attempt to), the
  call returns with the state as it was: no entry is added and neither registry is
  written. The calls that follow run as if the attempt had not been made, and a
  \<^verbatim>\<open>register\<close> call that issues this one attempt invokes no callback and defines nothing.
\<close>

theorem ignoreDuplicate_aborts:
  assumes "p = extractTryDefineElementParams a"
    and "answersIgnore (disambiguate this) (elementTypesByTag g) (type p) (JSString (name p))"
  shows "tryDefineElement (disambiguate this) (shadowRootMode this) (container this) a
           \<lparr>globals = g, elementDefinitionEntries = entries\<rparr> =
         Some (Inr \<lparr>globals = g, elementDefinitionEntries = entries\<rparr>) \<and>
         issueCalls (disambiguate this) (shadowRootMode this) (container this) (a # calls)
           \<lparr>globals = g, elementDefinitionEntries = entries\<rparr> =
         issueCalls (disambiguate this) (shadowRootMode this) (container this) calls
           \<lparr>globals = g, elementDefinitionEntries = entries\<rparr> \<and>
         (\<exists>r. register this [\<lambda>elementPrefix. [a]] g = Some r \<and> thrown r = None \<and>
            registriesAfter r = g \<and> callbacksOf (events r) = [] \<and>
            definitionsOf (events r) = [])"
proof -
  have call: "tryDefineElement (disambiguate this) (shadowRootMode this) (container this) a
           \<lparr>globals = g, elementDefinitionEntries = es\<rparr> =
         Some (Inr \<lparr>globals = g, elementDefinitionEntries = es\<rparr>)" for es
    using tryDefineElement_ignored [OF assms(1), of "disambiguate this"
        "\<lparr>globals = g, elementDefinitionEntries = es\<rparr>"] assms(2)
    by simp
  have skip: "issueCalls (disambiguate this) (shadowRootMode this) (container this) (a # calls)
           \<lparr>globals = g, elementDefinitionEntries = entries\<rparr> =
         issueCalls (disambiguate this) (shadowRootMode this) (container this) calls
           \<lparr>globals = g, elementDefinitionEntries = entries\<rparr>"
    using call [of entries] by simp
  let ?r = "\<lparr>thrown = None, system = this\<lparr>designTokensInitialized := True\<rparr>,
           registriesAfter = g,
           events = (if \<not> designTokensInitialized this \<and> designTokenRoot this \<noteq> RootNull
                     then [RegisterRoot (designTokenRoot this)] else []) @
                    finishEntries g []\<rparr>"
  have reg: "register this [\<lambda>elementPrefix. [a]] g = Some ?r"
    using register_single [OF call [of "[]"]] by simp
  have "callbacksOf (events ?r) = []" "definitionsOf (events ?r) = []"
    by (simp_all add: rooted_callbacksOf rooted_definitionsOf del: finishEntries.simps)
  with reg have "\<exists>r. register this [\<lambda>elementPrefix. [a]] g = Some r \<and> thrown r = None \<and>
            registriesAfter r = g \<and> callbacksOf (events r) = [] \<and>
            definitionsOf (events r) = []"
    by (intro exI [of _ ?r]) simp
  with call [of entries] skip show ?thesis by blast
qed

theorem ignoreDuplicate_aborts_witness:
  "tryDefineElement (\<lambda>n t e. if n = JSString ''a'' then Inr (JSString ''b'') else Inr ignoreDuplicate)
       None RootContainer (Positional ''a'' (Class ''C'') (\<lambda>ctx. [DefineElement ''d'']))
       \<lparr>globals = \<lparr>elementTypesByTag = [JSString ''a'' \<mapsto> Class ''A'', JSString ''b'' \<mapsto> Class ''B''],
           elementTagsByType = [Class ''A'' \<mapsto> JSString ''a'', Class ''B'' \<mapsto> JSString ''b''],
           classesCreated = 0\<rparr>, elementDefinitionEntries = []\<rparr> =
     Some (Inr \<lparr>globals = \<lparr>elementTypesByTag = [JSString ''a'' \<mapsto> Class ''A'', JSString ''b'' \<mapsto> Class ''B''],
           elementTagsByType = [Class ''A'' \<mapsto> JSString ''a'', Class ''B'' \<mapsto> JSString ''b''],
           classesCreated = 0\<rparr>, elementDefinitionEntries = []\<rparr>)"
proof -
  let ?d = "\<lambda>n (t::constructable) (e::constructable). if n = JSString ''a'' then Inr (JSString ''b'') else (Inr ignoreDuplicate :: exn + jsval)"
  let ?a = "Positional ''a'' (Class ''C'') (\<lambda>ctx. [DefineElement ''d''])"
  let ?g = "\<lparr>elementTypesByTag = [JSString ''a'' \<mapsto> Class ''A'', JSString ''b'' \<mapsto> Class ''B''],
           elementTagsByType = [Class ''A'' \<mapsto> JSString ''a'', Class ''B'' \<mapsto> JSString ''b''],
           classesCreated = 0\<rparr>"
  let ?sys = "withElementDisambiguation (newDefaultDesignSystem None RootContainer) ?d"
  have h1: "extractTryDefineElementParams ?a = extractTryDefineElementParams ?a" by simp
  have b: "answersIgnore ?d (elementTypesByTag ?g) (Class ''C'') (JSString ''b'')"
    by (rule answersIgnore.now [where existing = "Class ''B''"]) simp_all
  have "answersIgnore ?d (elementTypesByTag ?g) (Class ''C'') (JSString ''a'')"
    by (rule answersIgnore.later [where existing = "Class ''A''" and r = "JSString ''b''"])
       (use b in \<open>simp_all add: ignoreDuplicate_def definitionCallbackOnly_def\<close>)
  then have h2: "answersIgnore (disambiguate ?sys) (elementTypesByTag ?g)
      (type (extractTryDefineElementParams ?a)) (JSString (name (extractTryDefineElementParams ?a)))"
    by (simp add: withElementDisambiguation_def)
  from ignoreDuplicate_aborts [OF h1 h2, of "[]"] show ?thesis
    by (simp add: withElementDisambiguation_def newDefaultDesignSystem_def)
qed

section \<open>A callback result that is none of the three outcomes\<close>

lemma tryDefineElement_renamed_free:
  assumes "p = extractTryDefineElementParams a"
    and "elementTypesByTag (globals s) (JSString (name p)) = Some existing"
    and "d (JSString (name p)) (type p) existing = Inr r"
    and "r \<noteq> ignoreDuplicate" "r \<noteq> definitionCallbackOnly"
    and "elementTypesByTag (globals s) r = None"
  shows "tryDefineElement d m c a s =
     Some (Inr \<lparr>globals = snd (fileElement (globals s) r (type p) (baseClass p)),
       elementDefinitionEntries = elementDefinitionEntries s @
         [newElementDefinitionEntry c r
            (fst (fileElement (globals s) r (type p) (baseClass p))) m (callback p) True]\<rparr>)"
  using assms by (simp add: tryDefineElement_def Let_def loop_rename loop_None split_beta)

text \<open>
  Claim C4, as the code has it. The result of the disambiguation callback is compared
  with the two sentinels only; any other value, a string or not, becomes the element name
  without a check, and the lookup is repeated with it. No invalid-result error is
  signalled: when the callback answers the collision on the attempted name with such a
  value and the value is not on file as a tag, the call returns normally, having filed the
  type under that value in both registries and added an entry of that name, marked
  \<open>willDefine\<close>.
\<close>

theorem other_result_taken_as_name:
  assumes "p = extractTryDefineElementParams a"
    and "elementTypesByTag (globals s) (JSString (name p)) = Some existing"
    and "d (JSString (name p)) (type p) existing = Inr r"
    and "r \<noteq> ignoreDuplicate" "r \<noteq> definitionCallbackOnly"
    and "elementTypesByTag (globals s) r = None"
  shows "\<exists>s1. tryDefineElement d m c a s = Some (Inr s1) \<and>
            elementTypesByTag (globals s1) r =
              Some (fst (fileElement (globals s) r (type p) (baseClass p))) \<and>
            elementTagsByType (globals s1)
              (fst (fileElement (globals s) r (type p) (baseClass p))) = Some r \<and>
            elementDefinitionEntries s1 = elementDefinitionEntries s @
              [newElementDefinitionEntry c r
                 (fst (fileElement (globals s) r (type p) (baseClass p))) m (callback p) True]"
proof -
  let ?t1 = "fst (fileElement (globals s) r (type p) (baseClass p))"
  have tags: "elementTagsByType (snd (fileElement (globals s) r (type p) (baseClass p))) ?t1 = Some r"
    by (simp add: fileElement_tagsByType split: option.split)
  with tryDefineElement_renamed_free [where d = d and m = m and c = c, OF assms] show ?thesis
    by (simp add: fileElement_typesByTag)
qed

theorem other_result_taken_as_name_witness:
  "\<exists>s1. tryDefineElement (\<lambda>n t e. Inr JSUndefined) None RootContainer
       (Positional ''a'' (Class ''C'') (\<lambda>ctx. []))
       \<lparr>globals = \<lparr>elementTypesByTag = [JSString ''a'' \<mapsto> Class ''A''],
           elementTagsByType = [Class ''A'' \<mapsto> JSString ''a''],
           classesCreated = 0\<rparr>, elementDefinitionEntries = []\<rparr> = Some (Inr s1) \<and>
     elementTypesByTag (globals s1) JSUndefined = Some (Class ''C'') \<and>
     elementTagsByType (globals s1) (Class ''C'') = Some JSUndefined"
proof -
  let ?d = "\<lambda>(n::jsval) (t::constructable) (e::constructable). (Inr JSUndefined :: exn + jsval)"
  let ?a = "Positional ''a'' (Class ''C'') (\<lambda>ctx. [])"
  let ?s = "\<lparr>globals = \<lparr>elementTypesByTag = [JSString ''a'' \<mapsto> Class ''A''],
           elementTagsByType = [Class ''A'' \<mapsto> JSString ''a''],
           classesCreated = 0\<rparr>, elementDefinitionEntries = []\<rparr>"
  let ?p = "extractTryDefineElementParams ?a"
  have h1: "?p = ?p" by simp
  have h2: "elementTypesByTag (globals ?s) (JSString (name ?p)) = Some (Class ''A'')" by simp
  have h3: "?d (JSString (name ?p)) (type ?p) (Class ''A'') = Inr JSUndefined" by simp
  have h4: "JSUndefined \<noteq> ignoreDuplicate" by (simp add: ignoreDuplicate_def)
  have h5: "JSUndefined \<noteq> definitionCallbackOnly" by (simp add: definitionCallbackOnly_def)
  have h6: "elementTypesByTag (globals ?s) JSUndefined = None" by simp
  from other_result_taken_as_name [where d = ?d and m = None and c = RootContainer, OF h1 h2 h3 h4 h5 h6]
  show ?thesis by (auto simp: fileElement_type)
qed

text \<open>
  Claim C4 as stated fails: a callback that answers \<^verbatim>\<open>undefined\<close>, which is none of the
  three outcomes, makes the call return normally with the type filed under \<^verbatim>\<open>undefined\<close>.
\<close>

theorem invalid_result_counterexample:
  "tryDefineElement (\<lambda>n t e. Inr JSUndefined) None RootContainer
       (Positional ''a'' (Class ''C'') (\<lambda>ctx. []))
       \<lparr>globals = \<lparr>elementTypesByTag = [JSString ''a'' \<mapsto> Class ''A''],
           elementTagsByType = [Class ''A'' \<mapsto> JSString ''a''],
           classesCreated = 0\<rparr>, elementDefinitionEntries = []\<rparr> =
     Some (Inr \<lparr>globals = \<lparr>elementTypesByTag =
                     [JSString ''a'' \<mapsto> Class ''A'', JSUndefined \<mapsto> Class ''C''],
                   elementTagsByType =
                     [Class ''A'' \<mapsto> JSString ''a'', Class ''C'' \<mapsto> JSUndefined],
                   classesCreated = 0\<rparr>,
             elementDefinitionEntries =
               [newElementDefinitionEntry RootContainer JSUndefined (Class ''C'') None
                  (\<lambda>ctx. []) True]\<rparr>)"
  by (simp add: tryDefineElement_def disambiguationLoop.simps fileElement_def Let_def
      ignoreDuplicate_def definitionCallbackOnly_def)

section \<open>Registering the same name and type twice\<close>

lemma definedFor_length: "length (definedFor g entry) \<le> 1"
  by (simp add: definedFor_def split: option.split)

lemma default_attempt:
  assumes "p = extractTryDefineElementParams a"
  shows "\<exists>s1 entry. tryDefineElement defaultDisambiguate m c a s = Some (Inr s1) \<and>
           elementTypesByTag (globals s1) (JSString (name p)) \<noteq> None \<and>
           elementDefinitionEntries s1 = elementDefinitionEntries s @ [entry]"
proof (cases "elementTypesByTag (globals s) (JSString (name p))")
  case None
  from tryDefineElement_free [OF assms None, of defaultDisambiguate m c] show ?thesis
    by (simp add: fileElement_typesByTag)
next
  case (Some existing)
  have "defaultDisambiguate (JSString (name p)) (type p) existing = Inr definitionCallbackOnly"
    by (simp add: defaultDisambiguate_def)
  from tryDefineElement_callbackOnly [where d = defaultDisambiguate and m = m and c = c, OF assms Some this] Some show ?thesis
    by simp
qed

text \<open>
  Claim C5. Under the default policy, registering the same name and type a second time is
  not an error and changes nothing: both \<^verbatim>\<open>register\<close> calls return normally, the second
  leaves both registries as the first left them, so \<^verbatim>\<open>tagFor\<close> answers the same for
  every type before and after it, and the second asks the platform for no definition (its
  entry has \<open>willDefine = False\<close>; its callback still runs). The two calls together ask
  for at most one definition.
\<close>

theorem default_policy_idempotent:
  assumes "disambiguate this = defaultDisambiguate"
    and "p = extractTryDefineElementParams a"
  shows "\<exists>r1 r2. register this [\<lambda>elementPrefix. [a]] g = Some r1 \<and>
           register (system r1) [\<lambda>elementPrefix. [a]] (registriesAfter r1) = Some r2 \<and>
           thrown r1 = None \<and> thrown r2 = None \<and>
           registriesAfter r2 = registriesAfter r1 \<and>
           tagFor (registriesAfter r2) (type p) = tagFor (registriesAfter r1) (type p) \<and>
           callbacksOf (events r2) = [(JSString (name p), type p, False)] \<and>
           definitionsOf (events r2) = [] \<and>
           length (definitionsOf (events r1 @ events r2)) \<le> 1"
proof -
  let ?m = "shadowRootMode this" and ?c = "container this"
  let ?this1 = "this\<lparr>designTokensInitialized := True\<rparr>"
  obtain s1 entry where
    first: "tryDefineElement (disambiguate this) ?m ?c a
              \<lparr>globals = g, elementDefinitionEntries = []\<rparr> = Some (Inr s1)"
    and filed: "elementTypesByTag (globals s1) (JSString (name p)) \<noteq> None"
    and one: "elementDefinitionEntries s1 = [entry]"
    using default_attempt [OF assms(2), of ?m ?c "\<lparr>globals = g, elementDefinitionEntries = []\<rparr>"]
      assms(1) by auto
  let ?r1 = "\<lparr>thrown = None, system = ?this1, registriesAfter = globals s1,
           events = (if \<not> designTokensInitialized this \<and> designTokenRoot this \<noteq> RootNull
                     then [RegisterRoot (designTokenRoot this)] else []) @
                    finishEntries (globals s1) (elementDefinitionEntries s1)\<rparr>"
  have reg1: "register this [\<lambda>elementPrefix. [a]] g = Some ?r1"
    by (rule register_single [OF first])
  from filed obtain existing where
    taken: "elementTypesByTag (globals s1) (JSString (name p)) = Some existing" by blast
  let ?e2 = "newElementDefinitionEntry ?c (JSString (name p)) (type p) ?m (callback p) False"
  have second: "tryDefineElement (disambiguate ?this1) (shadowRootMode ?this1) (container ?this1) a
              \<lparr>globals = globals s1, elementDefinitionEntries = []\<rparr> =
            Some (Inr \<lparr>globals = globals s1, elementDefinitionEntries = [?e2]\<rparr>)"
    using tryDefineElement_callbackOnly [OF assms(2), of
        "\<lparr>globals = globals s1, elementDefinitionEntries = []\<rparr>" existing defaultDisambiguate ?m ?c]
      taken assms(1)
    by (simp add: defaultDisambiguate_def)
  let ?r2 = "\<lparr>thrown = None, system = ?this1, registriesAfter = globals s1,
           events = finishEntries (globals s1) [?e2]\<rparr>"
  have reg2: "register (system ?r1) [\<lambda>elementPrefix. [a]] (registriesAfter ?r1) = Some ?r2"
    using register_single [OF second] by simp
  have e2: "willDefine ?e2 = False" "entry_name ?e2 = JSString (name p)" "entry_type ?e2 = type p"
    by (simp_all add: newElementDefinitionEntry_def)
  have cbs: "callbacksOf (events ?r2) = [(JSString (name p), type p, False)]"
    by (simp add: finishEntries_callbacksOf e2 del: finishEntries.simps)
  have defs2: "definitionsOf (events ?r2) = []"
    by (simp add: finishEntries_definitionsOf definedFor_not_willDefine e2
        del: finishEntries.simps)
  have defs1: "length (definitionsOf (events ?r1)) \<le> 1"
    using definedFor_length [of "globals s1" entry]
    by (simp add: rooted_definitionsOf one del: finishEntries.simps)
  have both: "length (definitionsOf (events ?r1 @ events ?r2)) \<le> 1"
    using defs1 defs2 by (simp only: definitionsOf_append length_append) simp
  show ?thesis
    apply (rule exI [of _ ?r1], rule exI [of _ ?r2])
    using reg1 reg2 cbs defs2 both by simp
qed

theorem default_policy_idempotent_witness:
  "\<exists>r1 r2.
     register (newDefaultDesignSystem None RootContainer)
       [\<lambda>elementPrefix. [Positional ''my-button'' (Class ''Button'') (\<lambda>ctx. [DefineElement ''d''])]]
       initialRegistries = Some r1 \<and>
     register (system r1)
       [\<lambda>elementPrefix. [Positional ''my-button'' (Class ''Button'') (\<lambda>ctx. [DefineElement ''d''])]]
       (registriesAfter r1) = Some r2 \<and>
     registriesAfter r2 = registriesAfter r1 \<and>
     tagFor (registriesAfter r2) (Class ''Button'') = tagFor (registriesAfter r1) (Class ''Button'') \<and>
     callbacksOf (events r2) = [(JSString ''my-button'', Class ''Button'', False)] \<and>
     definitionsOf (events r2) = [] \<and>
     length (definitionsOf (events r1 @ events r2)) \<le> 1"
proof -
  let ?a = "Positional ''my-button'' (Class ''Button'') (\<lambda>ctx. [DefineElement ''d''])"
  have h1: "disambiguate (newDefaultDesignSystem None RootContainer) = defaultDisambiguate"
    by (simp add: newDefaultDesignSystem_def)
  have h2: "extractTryDefineElementParams ?a = extractTryDefineElementParams ?a" by simp
  from default_policy_idempotent [OF h1 h2, of initialRegistries] show ?thesis
    by (simp only: extractTryDefineElementParams.simps elementDefinitionParams.simps) blast
qed

section \<open>A policy that renames\<close>

text \<open>
  Claim C6. With a policy that always renames a taken name to \<^verbatim>\<open>name + "-2"\<close>, and
  registries in which neither \<^verbatim>\<open>"foo-button"\<close> nor \<^verbatim>\<open>"foo-button-2"\<close> is taken and the two
  distinct types (neither of them \<open>FoundationElement\<close>) have no tag: registering
  \<^verbatim>\<open>"foo-button"\<close> with TypeA and then \<^verbatim>\<open>"foo-button"\<close> with TypeB files TypeB under
  \<^verbatim>\<open>"foo-button-2"\<close>, and afterwards \<^verbatim>\<open>tagFor(TypeA)\<close> is \<^verbatim>\<open>"foo-button"\<close> and
  \<^verbatim>\<open>tagFor(TypeB)\<close> is \<^verbatim>\<open>"foo-button-2"\<close>.
\<close>

theorem rename_determinism:
  assumes "typeA \<noteq> typeB" "typeA \<noteq> FoundationElement" "typeB \<noteq> FoundationElement"
    and "elementTypesByTag g (JSString ''foo-button'') = None"
    and "elementTypesByTag g (JSString ''foo-button-2'') = None"
    and "elementTagsByType g typeA = None" "elementTagsByType g typeB = None"
  shows "\<exists>s1 s2.
     tryDefineElement renameWithSuffix2 m c (Positional ''foo-button'' typeA cbA)
       \<lparr>globals = g, elementDefinitionEntries = entries\<rparr> = Some (Inr s1) \<and>
     tryDefineElement renameWithSuffix2 m c (Positional ''foo-button'' typeB cbB) s1 =
       Some (Inr s2) \<and>
     elementTypesByTag (globals s2) (JSString ''foo-button'') = Some typeA \<and>
     elementTypesByTag (globals s2) (JSString ''foo-button-2'') = Some typeB \<and>
     tagFor (globals s2) typeA = JSString ''foo-button'' \<and>
     tagFor (globals s2) typeB = JSString ''foo-button-2'' \<and>
     elementDefinitionEntries s2 = entries @
       [newElementDefinitionEntry c (JSString ''foo-button'') typeA m cbA True,
        newElementDefinitionEntry c (JSString ''foo-button-2'') typeB m cbB True]"
proof -
  let ?a = "Positional ''foo-button'' typeA cbA" and ?b = "Positional ''foo-button'' typeB cbB"
  let ?s = "\<lparr>globals = g, elementDefinitionEntries = entries\<rparr>"
  let ?g1 = "snd (fileElement g (JSString ''foo-button'') typeA None)"
  let ?s1 = "\<lparr>globals = ?g1, elementDefinitionEntries = entries @
       [newElementDefinitionEntry c (JSString ''foo-button'') typeA m cbA True]\<rparr>"
  have tA: "fst (fileElement g (JSString ''foo-button'') typeA None) = typeA"
    using assms by (simp add: fileElement_type)
  have first: "tryDefineElement renameWithSuffix2 m c ?a ?s = Some (Inr ?s1)"
    using tryDefineElement_free [of "extractTryDefineElementParams ?a" ?a ?s renameWithSuffix2 m c]
      assms(4) tA by simp
  have g1_types: "elementTypesByTag ?g1 = (elementTypesByTag g)(JSString ''foo-button'' \<mapsto> typeA)"
    by (simp add: fileElement_typesByTag tA)
  have g1_tags: "elementTagsByType ?g1 = (elementTagsByType g)(typeA \<mapsto> JSString ''foo-button'')"
    by (simp add: fileElement_tagsByType tA)
  let ?g2 = "snd (fileElement ?g1 (JSString ''foo-button-2'') typeB None)"
  have tB: "fst (fileElement ?g1 (JSString ''foo-button-2'') typeB None) = typeB"
    using assms by (simp add: fileElement_type g1_tags)
  let ?s2 = "\<lparr>globals = ?g2, elementDefinitionEntries = elementDefinitionEntries ?s1 @
       [newElementDefinitionEntry c (JSString ''foo-button-2'') typeB m cbB True]\<rparr>"
  have second: "tryDefineElement renameWithSuffix2 m c ?b ?s1 = Some (Inr ?s2)"
    using tryDefineElement_renamed_free [where d = renameWithSuffix2 and m = m and c = c
        and a = ?b and s = ?s1 and p = "extractTryDefineElementParams ?b"
        and existing = typeA and r = "JSString ''foo-button-2''"] assms(5) tB
    by (simp add: g1_types renameWithSuffix2_def ignoreDuplicate_def definitionCallbackOnly_def)
  have g2_types: "elementTypesByTag ?g2 =
      (elementTypesByTag g)(JSString ''foo-button'' \<mapsto> typeA, JSString ''foo-button-2'' \<mapsto> typeB)"
    by (simp add: fileElement_typesByTag tB tA)
  have g2_tags: "elementTagsByType ?g2 =
      (elementTagsByType g)(typeA \<mapsto> JSString ''foo-button'', typeB \<mapsto> JSString ''foo-button-2'')"
    by (simp add: fileElement_tagsByType tB tA)
  have look: "elementTypesByTag ?g2 (JSString ''foo-button'') = Some typeA"
    "elementTypesByTag ?g2 (JSString ''foo-button-2'') = Some typeB"
    "tagFor ?g2 typeA = JSString ''foo-button''" "tagFor ?g2 typeB = JSString ''foo-button-2''"
    using assms(1) by (simp_all add: g2_types g2_tags tagFor_def)
  show ?thesis
    apply (rule exI [of _ ?s1], rule exI [of _ ?s2])
    using first second look by simp
qed

theorem rename_determinism_witness:
  "\<exists>s1 s2.
     tryDefineElement renameWithSuffix2 None RootContainer
       (Positional ''foo-button'' (Class ''TypeA'') (\<lambda>ctx. []))
       \<lparr>globals = initialRegistries, elementDefinitionEntries = []\<rparr> = Some (Inr s1) \<and>
     tryDefineElement renameWithSuffix2 None RootContainer
       (Positional ''foo-button'' (Class ''TypeB'') (\<lambda>ctx. [])) s1 = Some (Inr s2) \<and>
     elementTypesByTag (globals s2) (JSString ''foo-button-2'') = Some (Class ''TypeB'') \<and>
     tagFor (globals s2) (Class ''TypeA'') = JSString ''foo-button'' \<and>
     tagFor (globals s2) (Class ''TypeB'') = JSString ''foo-button-2''"
proof -
  have h: "Class ''TypeA'' \<noteq> Class ''TypeB''" "Class ''TypeA'' \<noteq> FoundationElement"
    "Class ''TypeB'' \<noteq> FoundationElement"
    "elementTypesByTag initialRegistries (JSString ''foo-button'') = None"
    "elementTypesByTag initialRegistries (JSString ''foo-button-2'') = None"
    "elementTagsByType initialRegistries (Class ''TypeA'') = None"
    "elementTagsByType initialRegistries (Class ''TypeB'') = None"
    by (simp_all add: initialRegistries_def)
  from rename_determinism [OF h, of None RootContainer "\<lambda>ctx. []" "[]" "\<lambda>ctx. []"]
  show ?thesis by blast
qed

section \<open>Filing an element that needs a definition\<close>

lemma Extends_neq: "Extends k t \<noteq> t"
  by (induction t) auto

lemma tryDefineElement_defines:
  assumes "p = extractTryDefineElementParams a"
    and "disambiguationLoop d (elementTypesByTag (globals s)) (type p) (JSString (name p))
           (elementTypesByTag (globals s) (JSString (name p))) True = Some (Inr (Some (n, True)))"
  shows "tryDefineElement d m c a s =
     Some (Inr \<lparr>globals = snd (fileElement (globals s) n (type p) (baseClass p)),
       elementDefinitionEntries = elementDefinitionEntries s @
         [newElementDefinitionEntry c n
            (fst (fileElement (globals s) n (type p) (baseClass p))) m (callback p) True]\<rparr>)"
  using assms by (simp add: tryDefineElement_def Let_def split_beta)

text \<open>
  Claim C7. In a call that leaves the disambiguation loop with \<open>needsDefine\<close> still true and
  element name \<open>n\<close>, from registries that registration can reach: the type that is filed is
  a new anonymous subclass of the given type exactly when the given type has a tag other
  than \<open>n\<close> on file or is \<open>FoundationElement\<close>, and otherwise the given type itself; the new
  subclass had no entry in either registry; afterwards the tag-to-type registry has the
  filed type under \<open>n\<close> and the type-to-tag registry has \<open>n\<close> for the filed type and, when a
  base class was supplied, for the base class.
\<close>

theorem needsDefine_files_element:
  assumes "reachable withBase g"
    and "p = extractTryDefineElementParams a"
    and "disambiguationLoop d (elementTypesByTag g) (type p) (JSString (name p))
           (elementTypesByTag g (JSString (name p))) True = Some (Inr (Some (n, True)))"
  shows "\<exists>g1 t1.
     tryDefineElement d m c a \<lparr>globals = g, elementDefinitionEntries = entries\<rparr> =
       Some (Inr \<lparr>globals = g1, elementDefinitionEntries = entries @
         [newElementDefinitionEntry c n t1 m (callback p) True]\<rparr>) \<and>
     (t1 \<noteq> type p) =
       ((\<exists>tag. elementTagsByType g (type p) = Some tag \<and> tag \<noteq> n) \<or>
        type p = FoundationElement) \<and>
     (t1 = type p \<or>
      t1 = Extends (classesCreated g) (type p) \<and> elementTagsByType g t1 = None \<and>
      (\<forall>tag. elementTypesByTag g tag \<noteq> Some t1)) \<and>
     elementTypesByTag g1 n = Some t1 \<and>
     elementTagsByType g1 t1 = Some n \<and>
     (\<forall>b. baseClass p = Some b \<longrightarrow> elementTagsByType g1 b = Some n)"
proof -
  let ?s = "\<lparr>globals = g, elementDefinitionEntries = entries\<rparr>"
  let ?t1 = "fst (fileElement g n (type p) (baseClass p))"
  let ?g1 = "snd (fileElement g n (type p) (baseClass p))"
  from reachable_inv [OF assms(1)] have inv: "registriesInv g" by simp
  from loop_exit_aux [OF assms(3)] have free: "elementTypesByTag g n = None" by simp
  have other: "tag \<noteq> n" if "elementTagsByType g (type p) = Some tag" for tag
    using inv that free unfolding registriesInv_def by blast
  have run: "tryDefineElement d m c a ?s =
       Some (Inr \<lparr>globals = ?g1, elementDefinitionEntries = entries @
         [newElementDefinitionEntry c n ?t1 m (callback p) True]\<rparr>)"
    using tryDefineElement_defines [where s = ?s and d = d and m = m and c = c, OF assms(2)]
      assms(3) by simp
  have synth: "(?t1 \<noteq> type p) =
       ((\<exists>tag. elementTagsByType g (type p) = Some tag \<and> tag \<noteq> n) \<or>
        type p = FoundationElement)"
    using other by (auto simp: fileElement_type Extends_neq)
  from inv have fresh: "elementTagsByType g ?t1 = None"
    by (intro fileElement_fresh) (simp add: registriesInv_def)
  have unfiled: "elementTypesByTag g tag \<noteq> Some ?t1" for tag
    using inv fresh unfolding registriesInv_def by (metis option.distinct(1))
  have new: "?t1 = type p \<or>
      ?t1 = Extends (classesCreated g) (type p) \<and> elementTagsByType g ?t1 = None \<and>
      (\<forall>tag. elementTypesByTag g tag \<noteq> Some ?t1)"
    using fresh unfiled by (simp add: fileElement_type)
  have filed: "elementTypesByTag ?g1 n = Some ?t1" "elementTagsByType ?g1 ?t1 = Some n"
    "\<forall>b. baseClass p = Some b \<longrightarrow> elementTagsByType ?g1 b = Some n"
    by (simp_all add: fileElement_typesByTag fileElement_tagsByType split: option.split)
  show ?thesis
    apply (rule exI [of _ ?g1], rule exI [of _ ?t1])
    using run synth new filed by blast
qed

theorem needsDefine_files_element_witness:
  "\<exists>g1 t1.
     tryDefineElement defaultDisambiguate None RootContainer
       (Params \<lparr>name = ''b'', type = Class ''A'', callback = \<lambda>ctx. [],
                baseClass = Some (Class ''Base'')\<rparr>)
       \<lparr>globals = \<lparr>elementTypesByTag = [JSString ''a'' \<mapsto> Class ''A''],
                   elementTagsByType = [Class ''A'' \<mapsto> JSString ''a''],
                   classesCreated = 0\<rparr>,
        elementDefinitionEntries = []\<rparr> =
       Some (Inr \<lparr>globals = g1, elementDefinitionEntries =
         [newElementDefinitionEntry RootContainer (JSString ''b'') t1 None (\<lambda>ctx. []) True]\<rparr>) \<and>
     t1 = Extends 0 (Class ''A'') \<and>
     elementTypesByTag g1 (JSString ''b'') = Some t1 \<and>
     elementTagsByType g1 t1 = Some (JSString ''b'') \<and>
     elementTagsByType g1 (Class ''Base'') = Some (JSString ''b'')"
proof -
  let ?g = "\<lparr>elementTypesByTag = [JSString ''a'' \<mapsto> Class ''A''],
            elementTagsByType = [Class ''A'' \<mapsto> JSString ''a''],
            classesCreated = 0\<rparr>"
  let ?start = "\<lparr>globals = initialRegistries, elementDefinitionEntries = []\<rparr>"
  let ?first = "Positional ''a'' (Class ''A'') (\<lambda>ctx. [])"
  let ?a = "Params \<lparr>name = ''b'', type = Class ''A'', callback = \<lambda>ctx. [],
                    baseClass = Some (Class ''Base'')\<rparr>"
  have r0: "reachable True (globals ?start)" by (simp add: reachable.initial)
  have k0: "known (classesCreated (globals ?start)) (type (extractTryDefineElementParams ?first))"
    by simp
  have b0: "case baseClass (extractTryDefineElementParams ?first) of None \<Rightarrow> True
            | Some b \<Rightarrow> True \<and> known (classesCreated (globals ?start)) b" by simp
  have run0: "tryDefineElement defaultDisambiguate None RootContainer ?first ?start =
      Some (Inr \<lparr>globals = ?g, elementDefinitionEntries =
        [newElementDefinitionEntry RootContainer (JSString ''a'') (Class ''A'') None
           (\<lambda>ctx. []) True]\<rparr>)"
    by (simp add: tryDefineElement_def loop_None fileElement_def Let_def initialRegistries_def)
  from reachable.call [OF r0 k0 b0 run0] have h1: "reachable True ?g" by simp
  have h2: "extractTryDefineElementParams ?a = extractTryDefineElementParams ?a" by simp
  have h3: "disambiguationLoop defaultDisambiguate (elementTypesByTag ?g)
      (type (extractTryDefineElementParams ?a))
      (JSString (name (extractTryDefineElementParams ?a)))
      (elementTypesByTag ?g (JSString (name (extractTryDefineElementParams ?a)))) True =
      Some (Inr (Some (JSString ''b'', True)))"
    by (simp add: loop_None)
  from needsDefine_files_element [where d = defaultDisambiguate and m = None
      and c = RootContainer and entries = "[]", OF h1 h2 h3]
  show ?thesis by auto
qed

section \<open>Consistency of the two registries\<close>




section \<open>The order in which register finishes the entries\<close>

lemma tryDefineElement_grows:
  assumes "tryDefineElement d m c a s = Some (Inr s1)"
  shows "\<exists>more. elementDefinitionEntries s1 = elementDefinitionEntries s @ more"
  using tryDefineElement_cases [OF assms] by auto

lemma issueCalls_grows:
  "issueCalls d m c calls s = Some (x, s1) \<Longrightarrow>
   \<exists>more. elementDefinitionEntries s1 = elementDefinitionEntries s @ more"
proof (induction calls arbitrary: s)
  case Nil
  then show ?case by simp
next
  case (Cons a calls)
  show ?case
  proof (cases "tryDefineElement d m c a s")
    case None
    with Cons.prems show ?thesis by simp
  next
    case (Some y)
    show ?thesis
    proof (cases y)
      case (Inl e)
      with Some Cons.prems show ?thesis by simp
    next
      case (Inr s2)
      with Some Cons.prems have "issueCalls d m c calls s2 = Some (x, s1)" by simp
      from Cons.IH [OF this] obtain more where
        "elementDefinitionEntries s1 = elementDefinitionEntries s2 @ more" by blast
      moreover from tryDefineElement_grows [of d m c a s s2] Some Inr obtain more0 where
        "elementDefinitionEntries s2 = elementDefinitionEntries s @ more0" by auto
      ultimately show ?thesis by simp
    qed
  qed
qed

lemma issueCalls_append:
  "issueCalls d m c (pre @ post) s =
     (case issueCalls d m c pre s of
        None \<Rightarrow> None
      | Some (Some e, s1) \<Rightarrow> Some (Some e, s1)
      | Some (None, s1) \<Rightarrow> issueCalls d m c post s1)"
  by (induction pre arbitrary: s) (auto split: option.splits sum.splits)

lemma issueCalls_prefix:
  assumes "issueCalls d m c (pre @ post) s = Some (None, s1)"
  shows "\<exists>s0 more. issueCalls d m c pre s = Some (None, s0) \<and>
           elementDefinitionEntries s1 = elementDefinitionEntries s0 @ more"
proof -
  from assms obtain s0 where pre: "issueCalls d m c pre s = Some (None, s0)"
    and post: "issueCalls d m c post s0 = Some (None, s1)"
    by (auto simp: issueCalls_append split: option.splits)
  from issueCalls_grows [OF post] pre show ?thesis by blast
qed

text \<open>
  Claim C2, as the code has it. In a \<^verbatim>\<open>register\<close> call that returns normally, after the
  container has processed the registrations, the entries are taken in the order they were
  produced, and for each entry in turn its callback is invoked and, directly after it, its
  definition is defined when the entry is marked \<open>willDefine\<close> and its definition slot is
  filled. So the callbacks run in entry order and the definitions are defined in entry
  order; and the entries produced by any first part of the calls are a first part of the
  final list, so entries are in the order of the \<^verbatim>\<open>tryDefineElement\<close> calls.
\<close>

theorem register_finishes_in_entry_order:
  assumes "register this registrations g = Some r" and "thrown r = None"
  shows "\<exists>s. registerWithContext (disambiguate this) (shadowRootMode this) (container this)
               (prefix this) registrations \<lparr>globals = g, elementDefinitionEntries = []\<rparr> =
             Some (None, s) \<and>
           events r =
             (if \<not> designTokensInitialized this \<and> designTokenRoot this \<noteq> RootNull
              then [RegisterRoot (designTokenRoot this)] else []) @
             concat (map (\<lambda>entry. callbackPhase (globals s) entry @
                                   map ElementDefined (definedFor (globals s) entry))
                       (elementDefinitionEntries s)) \<and>
           callbacksOf (events r) =
             map (\<lambda>entry. (entry_name entry, entry_type entry, willDefine entry))
               (elementDefinitionEntries s) \<and>
           definitionsOf (events r) =
             concat (map (definedFor (globals s)) (elementDefinitionEntries s)) \<and>
           (\<forall>pre post. concat (map (\<lambda>reg. reg (prefix this)) registrations) = pre @ post \<longrightarrow>
              (\<exists>s0 more.
                 issueCalls (disambiguate this) (shadowRootMode this) (container this) pre
                   \<lparr>globals = g, elementDefinitionEntries = []\<rparr> = Some (None, s0) \<and>
                 elementDefinitionEntries s = elementDefinitionEntries s0 @ more))"
proof -
  let ?start = "\<lparr>globals = g, elementDefinitionEntries = []\<rparr>"
  let ?root = "if \<not> designTokensInitialized this \<and> designTokenRoot this \<noteq> RootNull
              then [RegisterRoot (designTokenRoot this)] else []"
  let ?run = "registerWithContext (disambiguate this) (shadowRootMode this) (container this)
               (prefix this) registrations ?start"
  from assms obtain s where run: "?run = Some (None, s)"
    and ev: "events r = ?root @ finishEntries (globals s) (elementDefinitionEntries s)"
    by (auto simp: register_def Let_def split: option.splits prod.splits)
  have shape: "finishEntries (globals s) (elementDefinitionEntries s) =
      concat (map (\<lambda>entry. callbackPhase (globals s) entry @
                            map ElementDefined (definedFor (globals s) entry))
                (elementDefinitionEntries s))"
  proof -
    have "finishEntry (globals s) =
        (\<lambda>entry. callbackPhase (globals s) entry @
                  map ElementDefined (definedFor (globals s) entry))"
      by (rule ext) (rule finishEntry_split)
    then show ?thesis by (simp add: finishEntries_concat)
  qed
  have cbs: "callbacksOf (events r) =
             map (\<lambda>entry. (entry_name entry, entry_type entry, willDefine entry))
               (elementDefinitionEntries s)"
    unfolding ev by (rule rooted_callbacksOf)
  have defs: "definitionsOf (events r) =
             concat (map (definedFor (globals s)) (elementDefinitionEntries s))"
    unfolding ev by (rule rooted_definitionsOf)
  have order: "\<exists>s0 more.
                 issueCalls (disambiguate this) (shadowRootMode this) (container this) pre
                   ?start = Some (None, s0) \<and>
                 elementDefinitionEntries s = elementDefinitionEntries s0 @ more"
    if "concat (map (\<lambda>reg. reg (prefix this)) registrations) = pre @ post" for pre post
    using run that issueCalls_prefix [of "disambiguate this" "shadowRootMode this"
        "container this" pre post ?start s]
    by (simp add: registerWithContext_def)
  from run ev shape cbs defs order show ?thesis by (intro exI [of _ s]) (simp only:, blast)
qed

lemma sample_pass:
  "registerWithContext defaultDisambiguate None RootContainer ''fast''
     [\<lambda>elementPrefix. [Positional (elementPrefix @ ''-a'') (Class ''A'') (\<lambda>ctx. [DefineElement ''da''])],
      \<lambda>elementPrefix. [Positional (elementPrefix @ ''-b'') (Class ''B'') (\<lambda>ctx. [DefineElement ''db''])]]
     \<lparr>globals = initialRegistries, elementDefinitionEntries = []\<rparr> =
   Some (None,
     \<lparr>globals =
        \<lparr>elementTypesByTag = [JSString ''fast-a'' \<mapsto> Class ''A'', JSString ''fast-b'' \<mapsto> Class ''B''],
         elementTagsByType = [Class ''A'' \<mapsto> JSString ''fast-a'', Class ''B'' \<mapsto> JSString ''fast-b''],
         classesCreated = 0\<rparr>,
      elementDefinitionEntries =
        [newElementDefinitionEntry RootContainer (JSString ''fast-a'') (Class ''A'') None
           (\<lambda>ctx. [DefineElement ''da'']) True,
         newElementDefinitionEntry RootContainer (JSString ''fast-b'') (Class ''B'') None
           (\<lambda>ctx. [DefineElement ''db'']) True]\<rparr>)"
  by (simp add: registerWithContext_def tryDefineElement_def loop_None fileElement_def Let_def
      initialRegistries_def)

theorem register_finishes_in_entry_order_witness:
  "\<exists>r. register (newDefaultDesignSystem None RootContainer)
        [\<lambda>elementPrefix. [Positional (elementPrefix @ ''-a'') (Class ''A'') (\<lambda>ctx. [DefineElement ''da''])],
         \<lambda>elementPrefix. [Positional (elementPrefix @ ''-b'') (Class ''B'') (\<lambda>ctx. [DefineElement ''db''])]]
        initialRegistries = Some r \<and>
      thrown r = None \<and>
      callbacksOf (events r) =
        [(JSString ''fast-a'', Class ''A'', True), (JSString ''fast-b'', Class ''B'', True)] \<and>
      map def_name (definitionsOf (events r)) = [JSString ''fast-a'', JSString ''fast-b'']"
proof -
  let ?sys = "newDefaultDesignSystem None RootContainer"
  let ?regs = "[\<lambda>elementPrefix. [Positional (elementPrefix @ ''-a'') (Class ''A'') (\<lambda>ctx. [DefineElement ''da''])],
         \<lambda>elementPrefix. [Positional (elementPrefix @ ''-b'') (Class ''B'') (\<lambda>ctx. [DefineElement ''db''])]]"
  obtain r where reg: "register ?sys ?regs initialRegistries = Some r" and thr: "thrown r = None"
    by (simp add: register_def newDefaultDesignSystem_def sample_pass Let_def)
  from register_finishes_in_entry_order [OF reg thr] obtain s where
    run: "registerWithContext (disambiguate ?sys) (shadowRootMode ?sys) (container ?sys)
            (prefix ?sys) ?regs \<lparr>globals = initialRegistries, elementDefinitionEntries = []\<rparr> =
          Some (None, s)"
    and cbs: "callbacksOf (events r) =
             map (\<lambda>entry. (entry_name entry, entry_type entry, willDefine entry))
               (elementDefinitionEntries s)"
    and defs: "definitionsOf (events r) =
             concat (map (definedFor (globals s)) (elementDefinitionEntries s))"
    by blast
  from run have s: "elementDefinitionEntries s =
        [newElementDefinitionEntry RootContainer (JSString ''fast-a'') (Class ''A'') None
           (\<lambda>ctx. [DefineElement ''da'']) True,
         newElementDefinitionEntry RootContainer (JSString ''fast-b'') (Class ''B'') None
           (\<lambda>ctx. [DefineElement ''db'']) True]"
    by (auto simp: newDefaultDesignSystem_def sample_pass)
  have "callbacksOf (events r) =
        [(JSString ''fast-a'', Class ''A'', True), (JSString ''fast-b'', Class ''B'', True)]"
    unfolding cbs s by (simp add: newElementDefinitionEntry_def)
  moreover have "map def_name (definitionsOf (events r)) = [JSString ''fast-a'', JSString ''fast-b'']"
    unfolding defs s
    by (simp add: definedFor_def afterCallback_def newElementDefinitionEntry_def defineElement_def)
  ultimately show ?thesis using reg thr by (intro exI [of _ r]) simp
qed

text \<open>
  Claim C2 as stated fails in the order of the two kinds of step: with two entries that
  both get defined, the code defines the first element before it invokes the second
  entry's callback, where the specification has both callbacks first and then both
  definitions.
\<close>

theorem register_two_phase_counterexample:
  "map_option events
     (register (newDefaultDesignSystem None RootContainer)
        [\<lambda>elementPrefix. [Positional (elementPrefix @ ''-a'') (Class ''A'') (\<lambda>ctx. [DefineElement ''da''])],
         \<lambda>elementPrefix. [Positional (elementPrefix @ ''-b'') (Class ''B'') (\<lambda>ctx. [DefineElement ''db''])]]
        initialRegistries) =
   Some [RegisterRoot RootUndefined,
         CallbackInvoked (JSString ''fast-a'') (Class ''A'') True,
         ElementDefined \<lparr>def_type = Class ''A'', def_name = JSString ''fast-a'', def_options = ''da''\<rparr>,
         CallbackInvoked (JSString ''fast-b'') (Class ''B'') True,
         ElementDefined \<lparr>def_type = Class ''B'', def_name = JSString ''fast-b'', def_options = ''db''\<rparr>] \<and>
   map_option events
     (registerTwoPhase (newDefaultDesignSystem None RootContainer)
        [\<lambda>elementPrefix. [Positional (elementPrefix @ ''-a'') (Class ''A'') (\<lambda>ctx. [DefineElement ''da''])],
         \<lambda>elementPrefix. [Positional (elementPrefix @ ''-b'') (Class ''B'') (\<lambda>ctx. [DefineElement ''db''])]]
        initialRegistries) =
   Some [RegisterRoot RootUndefined,
         CallbackInvoked (JSString ''fast-a'') (Class ''A'') True,
         CallbackInvoked (JSString ''fast-b'') (Class ''B'') True,
         ElementDefined \<lparr>def_type = Class ''A'', def_name = JSString ''fast-a'', def_options = ''da''\<rparr>,
         ElementDefined \<lparr>def_type = Class ''B'', def_name = JSString ''fast-b'', def_options = ''db''\<rparr>]"
  by (simp add: register_def registerTwoPhase_def newDefaultDesignSystem_def sample_pass Let_def
      finishEntry_def twoPhaseFinish_def callbackPhase_def definedFor_def afterCallback_def
      newElementDefinitionEntry_def defineElement_def)

section \<open>The design systems of nodes\<close>

lemma getOrCreate_owned:
  "designSystemOf w x = Some d \<Longrightarrow> getOrCreate (Some x) w = (d, w)"
  by (simp add: getOrCreate_def)

lemma getOrCreate_new:
  assumes "designSystemOf w x = None" and "instances w (NodeContainer x) = None"
  shows "getOrCreate (Some x) w =
     (length (systems w),
      w\<lparr>hasContainer := (hasContainer w)(x := True),
        systems := systems w @ [newDefaultDesignSystem (Some x) (NodeContainer x)],
        designSystemOf := (designSystemOf w)(x \<mapsto> length (systems w)),
        instances := (instances w)(NodeContainer x \<mapsto> length (systems w))\<rparr>)"
  using assms
  by (simp add: getOrCreate_def getOrCreateDOMContainer_def containerHas_def
      constructDefaultDesignSystem_def Let_def)

lemma resolveDefault_inv:
  assumes "locatorInv tree w"
  shows "locatorInv tree (snd (resolveDefault handler w))"
proof (cases "rootDesignSystem w")
  case None
  with assms show ?thesis
    unfolding locatorInv_def resolveDefault_def constructDefaultDesignSystem_def
    by (auto simp: Let_def less_Suc_eq)
next
  case (Some d)
  with assms show ?thesis by (simp add: resolveDefault_def)
qed

lemma resolveDefault_root:
  "rootDesignSystem (snd (resolveDefault handler w)) = Some (fst (resolveDefault handler w))"
  by (simp add: resolveDefault_def constructDefaultDesignSystem_def Let_def split: option.split)

lemma containerGet_inv:
  assumes "locatorInv tree w"
  shows "locatorInv tree (snd (containerGet c w))"
  using assms resolveDefault_inv [OF assms]
  by (simp add: containerGet_def split: option.split)

lemma responsibleFor_inv:
  assumes "locatorInv tree w"
  shows "locatorInv tree (snd (responsibleFor element w))"
  using assms containerGet_inv [OF assms]
  by (simp add: responsibleFor_def split: option.split)

lemma getOrCreateDOMContainer_inv:
  assumes "locatorInv tree w"
  shows "locatorInv tree (snd (getOrCreateDOMContainer n w))"
  using assms unfolding locatorInv_def getOrCreateDOMContainer_def by auto

lemma instances_root:
  "locatorInv tree w \<Longrightarrow> instances w RootContainer = None"
  unfolding locatorInv_def by (cases "instances w RootContainer") auto

lemma instances_owner:
  assumes "locatorInv tree w" and "instances w (NodeContainer x) = Some d"
  shows "designSystemOf w x = Some d"
proof -
  from assms obtain n where "NodeContainer x = NodeContainer n" "designSystemOf w n = Some d"
    unfolding locatorInv_def by blast
  then show ?thesis by simp
qed

lemma getOrCreate_inv:
  assumes "locatorInv tree w"
  shows "locatorInv tree (snd (getOrCreate node w))"
proof (cases node)
  case None
  show ?thesis
  proof (cases "rootDesignSystem w")
    case (Some d)
    with None assms show ?thesis by (simp add: getOrCreate_def)
  next
    case noRoot: None
    have get: "containerGet RootContainer w = resolveDefault RootContainer w"
      by (simp add: containerGet_def instances_root [OF assms])
    have same: "(snd (resolveDefault RootContainer w))
        \<lparr>rootDesignSystem := Some (fst (resolveDefault RootContainer w))\<rparr> =
        snd (resolveDefault RootContainer w)"
      using resolveDefault_root [of RootContainer w] by simp
    from None noRoot have "snd (getOrCreate node w) = snd (resolveDefault RootContainer w)"
      by (simp add: getOrCreate_def get split_beta same)
    with resolveDefault_inv [OF assms] show ?thesis by simp
  qed
next
  case (Some x)
  show ?thesis
  proof (cases "designSystemOf w x")
    case (Some d)
    with \<open>node = Some x\<close> assms show ?thesis by (simp add: getOrCreate_owned)
  next
    case None
    have noInst: "instances w (NodeContainer x) = None"
      using instances_owner [OF assms, of x] None
      by (cases "instances w (NodeContainer x)") auto
    let ?k = "length (systems w)"
    let ?w1 = "w\<lparr>hasContainer := (hasContainer w)(x := True),
        systems := systems w @ [newDefaultDesignSystem (Some x) (NodeContainer x)],
        designSystemOf := (designSystemOf w)(x \<mapsto> ?k),
        instances := (instances w)(NodeContainer x \<mapsto> ?k)\<rparr>"
    from assms have anc: "ancestors w = tree"
      and own: "\<And>n d. designSystemOf w n = Some d \<Longrightarrow>
         instances w (NodeContainer n) = Some d \<and> hasContainer w n \<and> d < ?k"
      and inst: "\<And>c d. instances w c = Some d \<Longrightarrow>
         \<exists>n. c = NodeContainer n \<and> designSystemOf w n = Some d"
      and root: "\<And>d. rootDesignSystem w = Some d \<Longrightarrow>
         d < ?k \<and> (\<forall>n. designSystemOf w n \<noteq> Some d)"
      and inj: "\<And>n n1 d. designSystemOf w n = Some d \<Longrightarrow> designSystemOf w n1 = Some d \<Longrightarrow> n = n1"
      unfolding locatorInv_def by blast+
    have fresh: "designSystemOf w n \<noteq> Some ?k" for n
      using own [of n ?k] by auto
    have c1: "ancestors ?w1 = tree" using anc by simp
    have c2: "instances ?w1 (NodeContainer n) = Some d \<and> hasContainer ?w1 n \<and>
              d < length (systems ?w1)" if "designSystemOf ?w1 n = Some d" for n d
    proof (cases "n = x")
      case True
      with that show ?thesis by simp
    next
      case False
      with that have "designSystemOf w n = Some d" by simp
      from own [OF this] False show ?thesis by simp
    qed
    have c3: "\<exists>n. c = NodeContainer n \<and> designSystemOf ?w1 n = Some d"
      if "instances ?w1 c = Some d" for c d
    proof (cases "c = NodeContainer x")
      case True
      with that show ?thesis by simp
    next
      case False
      with that have "instances w c = Some d" by simp
      from inst [OF this] obtain n where n: "c = NodeContainer n" "designSystemOf w n = Some d"
        by blast
      with False have "n \<noteq> x" by auto
      with n show ?thesis by simp
    qed
    have c4: "d < length (systems ?w1) \<and> (\<forall>n. designSystemOf ?w1 n \<noteq> Some d)"
      if "rootDesignSystem ?w1 = Some d" for d
    proof -
      from that have "rootDesignSystem w = Some d" by simp
      from root [OF this] show ?thesis by auto
    qed
    have c5: "n = n1" if "designSystemOf ?w1 n = Some d" "designSystemOf ?w1 n1 = Some d" for n n1 d
      using that fresh inj by (auto split: if_splits)
    from c1 c2 c3 c4 c5 have "locatorInv tree ?w1" unfolding locatorInv_def by blast
    then show ?thesis
      unfolding \<open>node = Some x\<close> getOrCreate_new [OF None noInst] by simp
  qed
qed

lemma initialLocator_inv: "locatorInv tree (initialLocator tree)"
  by (simp add: locatorInv_def initialLocator_def)

lemma locatorReachable_inv: "locatorReachable tree w \<Longrightarrow> locatorInv tree w"
  by (induction rule: locatorReachable.induct)
     (simp_all add: initialLocator_inv getOrCreate_inv responsibleFor_inv
        getOrCreateDOMContainer_inv)

lemma getOrCreate_attaches:
  assumes "locatorInv tree w"
  shows "designSystemOf (snd (getOrCreate (Some x) w)) x = Some (fst (getOrCreate (Some x) w)) \<and>
         (\<forall>n. n \<noteq> x \<longrightarrow> designSystemOf (snd (getOrCreate (Some x) w)) n = designSystemOf w n)"
proof (cases "designSystemOf w x")
  case (Some d)
  then show ?thesis by (simp add: getOrCreate_owned)
next
  case None
  have noInst: "instances w (NodeContainer x) = None"
    using instances_owner [OF assms, of x] None
    by (cases "instances w (NodeContainer x)") auto
  show ?thesis by (simp add: getOrCreate_new [OF None noInst])
qed

lemma firstInstance_above:
  "x \<in> set ns \<Longrightarrow> present x \<Longrightarrow> inst (NodeContainer x) = Some d \<Longrightarrow>
   \<forall>n \<in> set (takeWhile (\<lambda>n. n \<noteq> x) ns). inst (NodeContainer n) = None \<Longrightarrow>
   firstInstance inst (map NodeContainer (filter present ns) @ rest) = Some d"
proof (induction ns)
  case Nil
  then show ?case by simp
next
  case (Cons n ns)
  show ?case
  proof (cases "n = x")
    case True
    with Cons.prems show ?thesis by simp
  next
    case False
    from False have unfold: "takeWhile (\<lambda>n. n \<noteq> x) (n # ns) =
        n # takeWhile (\<lambda>n. n \<noteq> x) ns" by simp
    from False Cons.prems(1) have mem: "x \<in> set ns" by simp
    have none: "inst (NodeContainer n) = None"
      using Cons.prems(4) unfolding unfold by (meson list.set_intros(1))
    have "\<forall>n \<in> set (takeWhile (\<lambda>n. n \<noteq> x) ns). inst (NodeContainer n) = None"
      using Cons.prems(4) unfolding unfold by (meson list.set_intros(2))
    from Cons.IH [OF mem Cons.prems(2,3) this] none
    have "firstInstance inst (map NodeContainer (filter present (n # ns)) @ rest) = Some d"
      by simp
    then show ?thesis .
  qed
qed

lemma findResponsibleContainer_own:
  "hasContainer w n \<Longrightarrow> findResponsibleContainer n w = NodeContainer n"
  by (simp add: findResponsibleContainer_def)

lemma findResponsibleContainer_parent:
  assumes "\<not> hasContainer w n" and "ancestors w n = p # rest" and "ancestors w p = rest"
  shows "findResponsibleContainer n w = findResponsibleContainer p w"
  using assms by (simp add: findResponsibleContainer_def)

lemma nearest_resolves:
  assumes tree: "domTree (ancestors w)"
    and cont: "hasContainer w x" and inst: "instances w (NodeContainer x) = Some d"
  shows "ancestors w e = ns \<Longrightarrow> x \<in> set (e # ns) \<Longrightarrow>
     \<forall>n \<in> set (takeWhile (\<lambda>n. n \<noteq> x) (e # ns)). instances w (NodeContainer n) = None \<Longrightarrow>
     firstInstance (instances w) (containerPath w (findResponsibleContainer e w)) = Some d"
proof (induction ns arbitrary: e)
  case Nil
  then have "e = x" by simp
  with cont inst show ?case by (simp add: findResponsibleContainer_own)
next
  case (Cons p rest)
  show ?case
  proof (cases "e = x")
    case True
    with cont inst show ?thesis by (simp add: findResponsibleContainer_own)
  next
    case False
    from tree have "case ancestors w e of [] \<Rightarrow> True | q # qs \<Rightarrow> ancestors w q = qs"
      unfolding domTree_def by blast
    with Cons.prems(1) have up: "ancestors w p = rest" by simp
    from False Cons.prems(2) have mem: "x \<in> set (p # rest)" by simp
    from False have unfold: "takeWhile (\<lambda>n. n \<noteq> x) (e # p # rest) =
        e # takeWhile (\<lambda>n. n \<noteq> x) (p # rest)" by simp
    have none: "instances w (NodeContainer e) = None"
      using Cons.prems(3) unfolding unfold by (meson list.set_intros(1))
    have above: "\<forall>n \<in> set (takeWhile (\<lambda>n. n \<noteq> x) (p # rest)). instances w (NodeContainer n) = None"
      using Cons.prems(3) unfolding unfold by (meson list.set_intros(2))
    show ?thesis
    proof (cases "hasContainer w e")
      case True
      have "firstInstance (instances w)
              (map NodeContainer (filter (hasContainer w) (p # rest)) @ [RootContainer]) = Some d"
        by (rule firstInstance_above [where present = "hasContainer w" and inst = "instances w", OF mem cont inst above])
      with True none Cons.prems(1) show ?thesis
        by (simp add: findResponsibleContainer_own)
    next
      case noCont: False
      have "findResponsibleContainer e w = findResponsibleContainer p w"
        by (rule findResponsibleContainer_parent [OF noCont Cons.prems(1) up])
      with Cons.IH [OF up mem above] show ?thesis by simp
    qed
  qed
qed

section \<open>Scoping of design systems\<close>

text \<open>
  Claim C8. In a state the locator can reach, over a DOM that is a tree:
  \<^verbatim>\<open>getOrCreate(x)\<close> called again with the same node returns the same design system;
  called with a different node \<open>y\<close> it returns a different one; and for a descendant \<open>e\<close>
  of \<open>x\<close>, where neither \<open>e\<close> nor a node between \<open>e\<close> and \<open>x\<close> has a design system of its
  own, \<^verbatim>\<open>responsibleFor(e)\<close> returns the design system of \<open>x\<close>.
\<close>

theorem locator_scoping:
  assumes "locatorReachable tree w" and "domTree tree"
    and "x \<noteq> y"
    and "x \<in> set (tree e)"
    and "\<forall>n \<in> set (takeWhile (\<lambda>n. n \<noteq> x) (e # tree e)). designSystemOf w n = None"
  shows "fst (getOrCreate (Some x) (snd (getOrCreate (Some x) w))) = fst (getOrCreate (Some x) w) \<and>
         fst (getOrCreate (Some y) (snd (getOrCreate (Some x) w))) \<noteq> fst (getOrCreate (Some x) w) \<and>
         fst (responsibleFor e (snd (getOrCreate (Some x) w))) = fst (getOrCreate (Some x) w)"
proof -
  let ?d1 = "fst (getOrCreate (Some x) w)" and ?w1 = "snd (getOrCreate (Some x) w)"
  from locatorReachable_inv [OF assms(1)] have inv: "locatorInv tree w" .
  from getOrCreate_inv [OF inv] have inv1: "locatorInv tree ?w1" .
  from getOrCreate_attaches [OF inv, of x]
  have own: "designSystemOf ?w1 x = Some ?d1"
    and rest: "\<And>n. n \<noteq> x \<Longrightarrow> designSystemOf ?w1 n = designSystemOf w n" by simp_all
  have again: "fst (getOrCreate (Some x) ?w1) = ?d1"
    by (simp add: getOrCreate_owned [OF own])
  have other: "fst (getOrCreate (Some y) ?w1) \<noteq> ?d1"
  proof
    let ?dy = "fst (getOrCreate (Some y) ?w1)" and ?wy = "snd (getOrCreate (Some y) ?w1)"
    assume same: "?dy = ?d1"
    from getOrCreate_inv [OF inv1] have invy: "locatorInv tree ?wy" .
    from getOrCreate_attaches [OF inv1, of y] assms(3) own
    have "designSystemOf ?wy y = Some ?dy" "designSystemOf ?wy x = Some ?d1" by simp_all
    with same invy have "y = x" unfolding locatorInv_def by metis
    with assms(3) show False by simp
  qed
  have located: "fst (responsibleFor e ?w1) = ?d1"
  proof (cases "e = x")
    case True
    with own show ?thesis by (simp add: responsibleFor_def)
  next
    case False
    from inv1 own have cont: "hasContainer ?w1 x" and inst: "instances ?w1 (NodeContainer x) = Some ?d1"
      unfolding locatorInv_def by blast+
    from inv1 have anc: "ancestors ?w1 = tree" unfolding locatorInv_def by blast
    have none: "\<forall>n \<in> set (takeWhile (\<lambda>n. n \<noteq> x) (e # tree e)). instances ?w1 (NodeContainer n) = None"
    proof
      fix n assume n: "n \<in> set (takeWhile (\<lambda>n. n \<noteq> x) (e # tree e))"
      from set_takeWhileD [OF n] have "n \<noteq> x" by blast
      from rest [OF this] n assms(5) have no: "designSystemOf ?w1 n = None" by metis
      show "instances ?w1 (NodeContainer n) = None"
        using instances_owner [OF inv1, of n] no
        by (cases "instances ?w1 (NodeContainer n)") auto
    qed
    from False have "e \<in> set (takeWhile (\<lambda>n. n \<noteq> x) (e # tree e))" by simp
    with assms(5) rest [OF False] have noOwn: "designSystemOf ?w1 e = None" by metis
    from assms(4) have mem: "x \<in> set (e # tree e)" by simp
    from assms(2) anc have tr: "domTree (ancestors ?w1)" by simp
    from anc have path: "ancestors ?w1 e = tree e" by simp
    from nearest_resolves [OF tr cont inst path mem none]
    have "firstInstance (instances ?w1) (containerPath ?w1 (findResponsibleContainer e ?w1)) = Some ?d1" .
    with noOwn show ?thesis by (simp add: responsibleFor_def containerGet_def)
  qed
  from again other located show ?thesis by blast
qed

theorem locator_scoping_witness:
  "fst (getOrCreate (Some 1) (snd (getOrCreate (Some 1) (initialLocator sampleDom)))) =
     fst (getOrCreate (Some 1) (initialLocator sampleDom)) \<and>
   fst (getOrCreate (Some 5) (snd (getOrCreate (Some 1) (initialLocator sampleDom)))) \<noteq>
     fst (getOrCreate (Some 1) (initialLocator sampleDom)) \<and>
   fst (responsibleFor 3 (snd (getOrCreate (Some 1) (initialLocator sampleDom)))) =
     fst (getOrCreate (Some 1) (initialLocator sampleDom))"
proof -
  have h1: "locatorReachable sampleDom (initialLocator sampleDom)"
    by (rule locatorReachable.start)
  have h2: "domTree sampleDom"
    by (simp add: domTree_def sampleDom_def)
  have h3: "(1::nat) \<noteq> 5" by simp
  have h4: "1 \<in> set (sampleDom 3)" by (simp add: sampleDom_def)
  have h5: "\<forall>n \<in> set (takeWhile (\<lambda>n. n \<noteq> 1) (3 # sampleDom 3)).
              designSystemOf (initialLocator sampleDom) n = None"
    by (simp add: initialLocator_def)
  from locator_scoping [OF h1 h2 h3 h4 h5] show ?thesis .
qed

lemma locator_sample_run:
  "fst (getOrCreate (Some 1) (initialLocator sampleDom)) = 0"
  "fst (getOrCreate (Some 5) (snd (getOrCreate (Some 1) (initialLocator sampleDom)))) = 1"
  "fst (responsibleFor 3 (snd (getOrCreate (Some 1) (initialLocator sampleDom)))) = 0"
  by (simp_all add: getOrCreate_def getOrCreateDOMContainer_def containerHas_def
      constructDefaultDesignSystem_def initialLocator_def Let_def responsibleFor_def
      containerGet_def findResponsibleContainer_def sampleDom_def)

end
